theory Spec2Isabelle
  imports Main "HOL-Library.AList"
begin

section \<open>JavaScript values\<close>

text \<open>
  The values the three source files handle: JSON-like data (activity payloads, store
  results, page objects). An object is an association list from property names to
  values; \<open>map_of\<close> reads a property and \<open>AList.update\<close> writes one, keeping the
  position of a key that is already there and appending a new one, as JavaScript does.
  Numbers are integers (ids, limits, offsets, amounts in cents).
\<close>

datatype jsval =
    Undefined
  | Null
  | Bool bool
  | Num int
  | Str string
  | Arr "jsval list"
  | Obj "(string \<times> jsval) list"

type_synonym obj = "(string \<times> jsval) list"

text \<open>\<open>v == null\<close>: true of \<open>null\<close> and \<open>undefined\<close> only.\<close>

definition nullish :: "jsval \<Rightarrow> bool" where
  "nullish v = (v = Undefined \<or> v = Null)"

text \<open>
  \<open>key in Object(v)\<close> and \<open>v[key]\<close> for a property name that is not an array index
  and not \<open>length\<close> (every name the sources use is such a name): only an object has
  the property; reading it from anything else gives \<open>undefined\<close>.
\<close>

fun js_in :: "string \<Rightarrow> jsval \<Rightarrow> bool" where
  "js_in key (Obj kvs) = (key \<in> fst ` set kvs)"
| "js_in key _ = False"

fun js_prop :: "jsval \<Rightarrow> string \<Rightarrow> jsval" where
  "js_prop (Obj kvs) key = (case map_of kvs key of Some v \<Rightarrow> v | None \<Rightarrow> Undefined)"
| "js_prop _ key = Undefined"

text \<open>\<open>object[key] = value\<close> on an object.\<close>

fun js_set :: "jsval \<Rightarrow> string \<Rightarrow> jsval \<Rightarrow> jsval" where
  "js_set (Obj kvs) key v = Obj (AList.update key v kvs)"
| "js_set object key v = object"

text \<open>
  Failures are values. \<open>NotFound\<close> is the error class of \<open>server/graphql/errors\<close>
  with its message; \<open>TypeError\<close> is what JavaScript throws on reading a property of
  \<open>null\<close> or \<open>undefined\<close>; \<open>StoreError\<close> is a rejected store promise;
  \<open>ValidationError\<close> is the store's refusal of a row.
\<close>

datatype error =
    NotFound string
  | TypeError
  | StoreError string
  | ValidationError string

text \<open>\<open>v.key\<close> as an expression of the program: it throws on \<open>null\<close> and \<open>undefined\<close>.\<close>

definition js_member :: "jsval \<Rightarrow> string \<Rightarrow> error + jsval" where
  "js_member v key = (if nullish v then Inl TypeError else Inr (js_prop v key))"

section \<open>The Account interface (server/graphql/v2/interface/Account.js)\<close>

subsection \<open>Rows, arguments and queries\<close>

text \<open>
  A timestamp column holds a JavaScript \<open>Date\<close> object or \<open>null\<close>; a \<open>Date\<close> object is
  truthy whatever time it holds.
\<close>

datatype date = Date int

record collective =
  collective_id :: int
  slug :: string
  name :: "string option"
  description :: "string option"
  website :: "string option"
  twitterHandle :: "string option"
  githubHandle :: "string option"
  createdAt :: "date option"
  updatedAt :: "date option"

record tier =
  tier_id :: int
  tier_CollectiveId :: int
  tier_slug :: string

record order_row =
  order_id :: int
  order_CollectiveId :: int
  order_FromCollectiveId :: int
  order_status :: string
  order_TierId :: "int option"

text \<open>
  The arguments as GraphQL hands them over. Every argument type is nullable, so an
  explicit \<open>null\<close> reaches the resolver: \<open>None\<close> is \<open>null\<close>. \<open>orderBy\<close> is a
  \<open>ChronologicalOrder\<close> input object; its two fields are handed to the store as
  they are.
\<close>

record chronological_order =
  field :: jsval
  direction :: jsval

record page_args =
  limit :: "int option"
  offset :: "int option"
  orderBy :: "chronological_order option"

record transactions_args = page_args +
  transaction_type :: "string option"

record orders_args = page_args +
  sent :: "bool option"
  received :: "bool option"
  status :: "string list option"
  tierSlug :: "string option"

text \<open>
  The \<open>where\<close> objects the resolvers build. A key that is absent from the JavaScript
  object is \<open>None\<close>. \<open>w_or\<close> is \<open>[Op.or]: {CollectiveId, FromCollectiveId}\<close>,
  \<open>w_status\<close> is \<open>status: {[Op.in]: ...}\<close>.
\<close>

record or_clause =
  or_CollectiveId :: int
  or_FromCollectiveId :: int

record order_where =
  w_or :: "or_clause option"
  w_CollectiveId :: "int option"
  w_FromCollectiveId :: "int option"
  w_status :: "string list option"
  w_TierId :: "int option"

record transaction_where =
  tw_CollectiveId :: int
  tw_type :: "string option"

record tier_where =
  tier_where_CollectiveId :: int
  tier_where_slug :: string

record 'w find_options =
  fo_where :: 'w
  fo_limit :: "int option"
  fo_offset :: "int option"
  fo_order :: "(jsval \<times> jsval) list"

text \<open>
  The store (the ORM models) is a parameter: three read-only queries, each of which
  may be rejected. \<open>findOne\<close> answers a row or \<open>null\<close>; \<open>findAndCountAll\<close> answers
  an object.
\<close>

record store =
  Tier_findOne :: "tier_where \<Rightarrow> error + tier option"
  Order_findAndCountAll :: "order_where find_options \<Rightarrow> error + obj"
  Transaction_findAndCountAll :: "transaction_where find_options \<Rightarrow> error + obj"

datatype store_call =
    Call_Tier_findOne tier_where
  | Call_Order_findAndCountAll "order_where find_options"
  | Call_Transaction_findAndCountAll "transaction_where find_options"

text \<open>
  A resolver run: the store calls it issued, in order, and how it ended (an error
  thrown, or the value returned).
\<close>

type_synonym 'a run = "store_call list \<times> (error + 'a)"

definition run_return :: "'a \<Rightarrow> 'a run" where
  "run_return x = ([], Inr x)"

definition run_throw :: "error \<Rightarrow> 'a run" where
  "run_throw e = ([], Inl e)"

definition run_await :: "store_call \<Rightarrow> (error + 'a) \<Rightarrow> 'a run" where
  "run_await c answer = ([c], answer)"

definition run_bind :: "'a run \<Rightarrow> ('a \<Rightarrow> 'b run) \<Rightarrow> 'b run" where
  "run_bind m f =
     (case m of
        (cs, Inl e) \<Rightarrow> (cs, Inl e)
      | (cs, Inr x) \<Rightarrow> (case f x of (cs', r) \<Rightarrow> (cs @ cs', r)))"

subsection \<open>Helpers of the language\<close>

definition truthy_bool :: "bool option \<Rightarrow> bool" where
  "truthy_bool b = (b = Some True)"

text \<open>A string is truthy unless it is \<open>null\<close> or empty.\<close>

definition truthy_string :: "string option \<Rightarrow> bool" where
  "truthy_string s = (case s of None \<Rightarrow> False | Some t \<Rightarrow> t \<noteq> [])"

definition js_of_int :: "int option \<Rightarrow> jsval" where
  "js_of_int n = (case n of None \<Rightarrow> Null | Some i \<Rightarrow> Num i)"

text \<open>
  \<open>String.prototype.toLowerCase\<close> belongs to the language, not to the repository, and
  what it does to a string depends on the Unicode tables. The orders resolver takes it
  as the parameter \<open>toLowerCase\<close>: what is proved of the resolver holds whatever
  lowercasing is.
\<close>

text \<open>
  \<open>{ limit: ..., offset: ..., ...result }\<close>: the own properties of \<open>result\<close> are
  written over the object literal's, in order.
\<close>

definition spread :: "obj \<Rightarrow> obj \<Rightarrow> obj" where
  "spread base result = foldl (\<lambda>acc (k, v). AList.update k v acc) base result"

subsection \<open>The transactions resolver\<close>

definition accountTransactions_resolve ::
  "store \<Rightarrow> collective \<Rightarrow> transactions_args \<Rightarrow> jsval run" where
  "accountTransactions_resolve models collective args =
     (let where0 = \<lparr>tw_CollectiveId = collective_id collective, tw_type = None\<rparr>;
          where1 = (if truthy_string (transaction_type args)
                    then where0\<lparr>tw_type := transaction_type args\<rparr> else where0)
      in run_bind
           (case orderBy args of
              None \<Rightarrow> run_throw TypeError
            | Some ob \<Rightarrow> run_return [(field ob, direction ob)])
           (\<lambda>order.
              let options = \<lparr>fo_where = where1, fo_limit = limit args,
                             fo_offset = offset args, fo_order = order\<rparr>
              in run_bind
                   (run_await (Call_Transaction_findAndCountAll options)
                      (Transaction_findAndCountAll models options))
                   (\<lambda>result.
                      run_return
                        (Obj (spread [(''limit'', js_of_int (limit args)),
                                      (''offset'', js_of_int (offset args))] result)))))"

subsection \<open>The orders resolver\<close>

text \<open>
  \<open>accountOrders.resolve\<close>, block by block. First the direction (lines 68 to 77):
  the initial \<open>where\<close> object, or the \<open>NotFound\<close> error.
\<close>

definition orders_direction :: "collective \<Rightarrow> orders_args \<Rightarrow> order_where run" where
  "orders_direction collective args =
     (if truthy_bool (sent args) \<and> truthy_bool (received args) then
        run_return \<lparr>w_or = Some \<lparr>or_CollectiveId = collective_id collective,
                                  or_FromCollectiveId = collective_id collective\<rparr>,
                     w_CollectiveId = None, w_FromCollectiveId = None,
                     w_status = None, w_TierId = None\<rparr>
      else if truthy_bool (sent args) then
        run_return \<lparr>w_or = None, w_CollectiveId = None,
                     w_FromCollectiveId = Some (collective_id collective),
                     w_status = None, w_TierId = None\<rparr>
      else if truthy_bool (received args) then
        run_return \<lparr>w_or = None, w_CollectiveId = Some (collective_id collective),
                     w_FromCollectiveId = None, w_status = None, w_TierId = None\<rparr>
      else
        run_throw (NotFound ''At least one of `sent` or `received` needs to be true.''))"

text \<open>The status filter (lines 79 to 81): \<open>args.status && args.status.length > 0\<close>.\<close>

definition orders_status :: "orders_args \<Rightarrow> order_where \<Rightarrow> order_where" where
  "orders_status args where0 =
     (case status args of
        None \<Rightarrow> where0
      | Some ss \<Rightarrow> if length ss > 0 then where0\<lparr>w_status := Some ss\<rparr> else where0)"

text \<open>
  The tier filter (lines 83 to 90): a truthy \<open>tierSlug\<close> is lowercased and looked up
  among the tiers of the account; no tier is the \<open>NotFound\<close> error.
\<close>

definition orders_tier ::
  "(string \<Rightarrow> string) \<Rightarrow> store \<Rightarrow> collective \<Rightarrow> orders_args \<Rightarrow> order_where \<Rightarrow>
     order_where run" where
  "orders_tier toLowerCase models collective args where1 =
     (case tierSlug args of
        None \<Rightarrow> run_return where1
      | Some s \<Rightarrow>
          if s \<noteq> [] then
            let tierSlug' = toLowerCase s;
                q = \<lparr>tier_where_CollectiveId = collective_id collective,
                     tier_where_slug = tierSlug'\<rparr>
            in run_bind
                 (run_await (Call_Tier_findOne q) (Tier_findOne models q))
                 (\<lambda>tier. case tier of
                            None \<Rightarrow> run_throw (NotFound ''TierSlug Not Found'')
                          | Some t \<Rightarrow> run_return (where1\<lparr>w_TierId := Some (tier_id t)\<rparr>))
          else run_return where1)"

text \<open>
  The query and the page (lines 92 to 99). The options object is built before the
  call, so a \<open>null\<close> \<open>orderBy\<close> throws with no query issued.
\<close>

definition orders_page :: "store \<Rightarrow> orders_args \<Rightarrow> order_where \<Rightarrow> jsval run" where
  "orders_page models args where2 =
     run_bind
       (case orderBy args of
          None \<Rightarrow> run_throw TypeError
        | Some ob \<Rightarrow> run_return [(field ob, direction ob)])
       (\<lambda>order.
          let options = \<lparr>fo_where = where2, fo_limit = limit args,
                         fo_offset = offset args, fo_order = order\<rparr>
          in run_bind
               (run_await (Call_Order_findAndCountAll options)
                  (Order_findAndCountAll models options))
               (\<lambda>result.
                  run_return
                    (Obj (spread [(''limit'', js_of_int (limit args)),
                                  (''offset'', js_of_int (offset args))] result))))"

definition accountOrders_resolve ::
  "(string \<Rightarrow> string) \<Rightarrow> store \<Rightarrow> collective \<Rightarrow> orders_args \<Rightarrow> jsval run" where
  "accountOrders_resolve toLowerCase models collective args =
     run_bind (orders_direction collective args)
       (\<lambda>where0.
          let where1 = orders_status args where0
          in run_bind (orders_tier toLowerCase models collective args where1)
               (\<lambda>where2. orders_page models args where2))"

subsection \<open>Field resolvers\<close>

definition AccountFields_createdAt :: "collective \<Rightarrow> date option" where
  "AccountFields_createdAt collective = createdAt collective"

text \<open>\<open>collective.updatedAt || collective.createdAt\<close>.\<close>

definition AccountFields_updatedAt :: "collective \<Rightarrow> date option" where
  "AccountFields_updatedAt collective =
     (case updatedAt collective of
        Some d \<Rightarrow> Some d
      | None \<Rightarrow> createdAt collective)"

section \<open>The activity sanitizer (sanitizeActivity)\<close>

subsection \<open>lodash's \<open>pick\<close>\<close>

text \<open>
  \<open>pick(object, paths)\<close> of the lodash library (4.17), which the sanitizer imports:
  \<open>basePickBy\<close> walks the paths in order and, for each path that \<open>hasIn\<close> finds in
  the object, writes the value \<open>baseGet\<close> reads into a fresh object with \<open>baseSet\<close>.
  A path is a string; \<open>castPath\<close> takes it as one property name when it has no dot
  or when the object has a property of exactly that name, and as the list of its
  dot-separated segments otherwise. The model covers paths made of word characters
  and dots whose segments are neither array indices nor \<open>length\<close>; a property
  written on an array is not represented.
\<close>

fun stringToPath :: "string \<Rightarrow> string list" where
  "stringToPath [] = [[]]"
| "stringToPath (c # cs) =
     (if c = CHR ''.'' then [] # stringToPath cs
      else (case stringToPath cs of [] \<Rightarrow> [[c]] | w # ws \<Rightarrow> (c # w) # ws))"

definition isKey :: "string \<Rightarrow> jsval \<Rightarrow> bool" where
  "isKey v object = (CHR ''.'' \<notin> set v \<or> (\<not> nullish object \<and> js_in v object))"

definition castPath :: "string \<Rightarrow> jsval \<Rightarrow> string list" where
  "castPath v object = (if isKey v object then [v] else stringToPath v)"

fun baseGet_loop :: "jsval \<Rightarrow> string list \<Rightarrow> jsval" where
  "baseGet_loop object [] = object"
| "baseGet_loop object (key # rest) =
     (if nullish object then Undefined else baseGet_loop (js_prop object key) rest)"

definition baseGet :: "jsval \<Rightarrow> string \<Rightarrow> jsval" where
  "baseGet object path =
     (let p = castPath path object in if p = [] then Undefined else baseGet_loop object p)"

fun hasPath_loop :: "jsval \<Rightarrow> string list \<Rightarrow> bool" where
  "hasPath_loop object [] = True"
| "hasPath_loop object (key # rest) =
     (\<not> nullish object \<and> js_in key object \<and> hasPath_loop (js_prop object key) rest)"

definition hasIn :: "jsval \<Rightarrow> string \<Rightarrow> bool" where
  "hasIn object path =
     (\<not> nullish object \<and>
      (let p = castPath path object in p \<noteq> [] \<and> hasPath_loop object p))"

definition isObject :: "jsval \<Rightarrow> bool" where
  "isObject v = (case v of Obj kvs \<Rightarrow> True | Arr xs \<Rightarrow> True | _ \<Rightarrow> False)"

definition unsafe_key :: "string \<Rightarrow> bool" where
  "unsafe_key key = (key = ''__proto__'' \<or> key = ''constructor'' \<or> key = ''prototype'')"

fun baseSet :: "jsval \<Rightarrow> string list \<Rightarrow> jsval \<Rightarrow> jsval" where
  "baseSet object [] v = object"
| "baseSet object (key # rest) v =
     (if \<not> isObject object then object
      else if unsafe_key key then object
      else if rest = [] then js_set object key v
      else let objValue = js_prop object key;
               newValue = (if isObject objValue then objValue else Obj [])
           in js_set object key (baseSet newValue rest v))"

definition basePick :: "jsval \<Rightarrow> string list \<Rightarrow> jsval" where
  "basePick object paths =
     foldl (\<lambda>result path.
              if hasIn object path
              then baseSet result (castPath path object) (baseGet object path)
              else result)
       (Obj []) paths"

definition pick :: "jsval \<Rightarrow> string list \<Rightarrow> jsval" where
  "pick object paths = (if nullish object then Obj [] else basePick object paths)"

subsection \<open>The activity types and their allowlists\<close>

text \<open>
  Modelled from the spec: the \<open>constants\<close> module that \<open>activities\<close> is imported from
  is not among the sources; the three activity types are the ones the specification
  names.
\<close>

definition COLLECTIVE_TRANSACTION_CREATED :: string where
  "COLLECTIVE_TRANSACTION_CREATED = ''collective.transaction.created''"

definition COLLECTIVE_UPDATE_PUBLISHED :: string where
  "COLLECTIVE_UPDATE_PUBLISHED = ''collective.update.published''"

definition COLLECTIVE_EXPENSE_CREATED :: string where
  "COLLECTIVE_EXPENSE_CREATED = ''collective.expense.created''"

definition transaction_created_paths :: "string list" where
  "transaction_created_paths =
     [''fromCollective.type'', ''fromCollective.name'', ''fromCollective.image'',
      ''fromCollective.slug'', ''transaction.amount'', ''transaction.currency'']"

definition update_published_paths :: "string list" where
  "update_published_paths =
     [''update.html'', ''update.title'', ''update.slug'', ''update.tags'',
      ''update.isPrivate'']"

definition expense_created_paths :: "string list" where
  "expense_created_paths =
     [''fromCollective.type'', ''fromCollective.name'', ''fromCollective.image'',
      ''fromCollective.slug'', ''expense.id'', ''expense.description'',
      ''expense.amount'', ''expense.currency'']"

subsection \<open>sanitizeActivity\<close>

definition sanitizeActivity :: "jsval \<Rightarrow> error + jsval" where
  "sanitizeActivity activity =
     (let cleanActivity0 = pick activity [''createdAt'', ''id'', ''type'', ''CollectiveId''];
          type = js_prop cleanActivity0 ''type'';
          cleanActivity = js_set cleanActivity0 ''data'' (Obj [])
      in if type = Str COLLECTIVE_TRANSACTION_CREATED then
           (case js_member activity ''data'' of
              Inl e \<Rightarrow> Inl e
            | Inr d \<Rightarrow> Inr (js_set cleanActivity ''data'' (pick d transaction_created_paths)))
         else if type = Str COLLECTIVE_UPDATE_PUBLISHED then
           (case js_member activity ''data'' of
              Inl e \<Rightarrow> Inl e
            | Inr d \<Rightarrow> Inr (js_set cleanActivity ''data'' (pick d update_published_paths)))
         else if type = Str COLLECTIVE_EXPENSE_CREATED then
           (case js_member activity ''data'' of
              Inl e \<Rightarrow> Inl e
            | Inr d \<Rightarrow> Inr (js_set cleanActivity ''data'' (pick d expense_created_paths)))
         else Inr cleanActivity)"

section \<open>Legal documents\<close>

text \<open>
  Modelled from the spec: the \<open>LegalDocument\<close> model and the store behind it are not
  among the sources (only a test that creates one row is). The specification's
  contract: creation requires a \<open>HostCollectiveId\<close> and a \<open>CollectiveId\<close> that
  reference existing collective rows; it fails with a validation error when either is
  violated, and otherwise succeeds, after which the record can be queried.
\<close>

record legal_document =
  ld_id :: int
  ld_year :: string
  ld_HostCollectiveId :: int
  ld_CollectiveId :: int

record legal_document_values =
  v_year :: string
  v_HostCollectiveId :: "int option"
  v_CollectiveId :: "int option"

record database =
  db_collectives :: "collective list"
  db_legalDocuments :: "legal_document list"

definition collective_exists :: "database \<Rightarrow> int \<Rightarrow> bool" where
  "collective_exists db i = (i \<in> collective_id ` set (db_collectives db))"

definition LegalDocument_create ::
  "database \<Rightarrow> legal_document_values \<Rightarrow> error + (database \<times> legal_document)" where
  "LegalDocument_create db vals =
     (case (v_HostCollectiveId vals, v_CollectiveId vals) of
        (Some h, Some c) \<Rightarrow>
          if collective_exists db h \<and> collective_exists db c then
            let doc = \<lparr>ld_id = int (length (db_legalDocuments db)) + 1,
                       ld_year = v_year vals,
                       ld_HostCollectiveId = h, ld_CollectiveId = c\<rparr>
            in Inr (db\<lparr>db_legalDocuments := db_legalDocuments db @ [doc]\<rparr>, doc)
          else Inl (ValidationError ''foreign key'')
      | _ \<Rightarrow> Inl (ValidationError ''notNull''))"

definition LegalDocument_findAll :: "database \<Rightarrow> legal_document list" where
  "LegalDocument_findAll db = db_legalDocuments db"

section \<open>Notions the properties are stated with\<close>

subsection \<open>What a \<open>where\<close> object selects\<close>

text \<open>
  The store's reading of an order \<open>where\<close> object: the keys present are conjoined;
  \<open>[Op.or]\<close> holds when one of its two comparisons does, \<open>[Op.in]\<close> when the
  column's value is in the list.
\<close>

definition where_holds :: "order_where \<Rightarrow> order_row \<Rightarrow> bool" where
  "where_holds w r =
     ((case w_or w of
         None \<Rightarrow> True
       | Some c \<Rightarrow> order_CollectiveId r = or_CollectiveId c \<or>
                   order_FromCollectiveId r = or_FromCollectiveId c) \<and>
      (case w_CollectiveId w of None \<Rightarrow> True | Some i \<Rightarrow> order_CollectiveId r = i) \<and>
      (case w_FromCollectiveId w of None \<Rightarrow> True | Some i \<Rightarrow> order_FromCollectiveId r = i) \<and>
      (case w_status w of None \<Rightarrow> True | Some ss \<Rightarrow> order_status r \<in> set ss) \<and>
      (case w_TierId w of None \<Rightarrow> True | Some t \<Rightarrow> order_TierId r = Some t))"

text \<open>\<open>findOne\<close> over a table of tier rows: the first row with both columns equal.\<close>

definition table_findOne :: "tier list \<Rightarrow> tier_where \<Rightarrow> error + tier option" where
  "table_findOne tiers q =
     Inr (find (\<lambda>t. tier_CollectiveId t = tier_where_CollectiveId q \<and>
                     tier_slug t = tier_where_slug q) tiers)"

text \<open>
  The page shape as the specification words it: exactly the keys \<open>limit\<close>,
  \<open>offset\<close>, \<open>totalCount\<close> and \<open>items\<close>, the first two holding the arguments.
\<close>

definition spec_page_shape :: "'a page_args_scheme \<Rightarrow> jsval \<Rightarrow> bool" where
  "spec_page_shape args page =
     (case page of
        Obj kvs \<Rightarrow>
          fst ` set kvs = {''limit'', ''offset'', ''totalCount'', ''items''} \<and>
          map_of kvs ''limit'' = Some (js_of_int (limit args)) \<and>
          map_of kvs ''offset'' = Some (js_of_int (offset args))
      | _ \<Rightarrow> False)"

text \<open>
  The page the resolvers build: the store's result object with \<open>limit\<close> and \<open>offset\<close>
  added. The result's own properties are written last, so they win over \<open>limit\<close> and
  \<open>offset\<close> should the result have properties of those names.
\<close>

definition page_of_result :: "'a page_args_scheme \<Rightarrow> obj \<Rightarrow> jsval \<Rightarrow> bool" where
  "page_of_result args result page =
     (case page of
        Obj kvs \<Rightarrow>
          set (map fst kvs) = {''limit'', ''offset''} \<union> set (map fst result) \<and>
          (''limit'' \<notin> set (map fst result) \<longrightarrow>
             map_of kvs ''limit'' = Some (js_of_int (limit args))) \<and>
          (''offset'' \<notin> set (map fst result) \<longrightarrow>
             map_of kvs ''offset'' = Some (js_of_int (offset args))) \<and>
          (distinct (map fst result) \<longrightarrow>
             list_all (\<lambda>(k, v). map_of kvs k = Some v) result)
      | _ \<Rightarrow> False)"

subsection \<open>Keys of an allowlist in a data object\<close>

text \<open>
  The property that a key of an allowlist names in an object, if the object has it:
  the property of exactly that name when there is one, and otherwise the property
  reached by following the key's dot-separated segments.
\<close>

fun lookup_path :: "jsval \<Rightarrow> string list \<Rightarrow> jsval option" where
  "lookup_path v [] = Some v"
| "lookup_path (Obj kvs) (key # rest) =
     (case map_of kvs key of None \<Rightarrow> None | Some v \<Rightarrow> lookup_path v rest)"
| "lookup_path v (key # rest) = None"

definition prop_at :: "jsval \<Rightarrow> string \<Rightarrow> jsval option" where
  "prop_at object key =
     lookup_path object (if js_in key object then [key] else stringToPath key)"

text \<open>
  An object holds nothing but keys of the allowlist that the data has. Each of its
  properties is of one of two kinds: it is named by a key of the list and holds what
  that key names in the data; or it is a non-empty object under a name \<open>k\<close>, and each
  property \<open>b\<close> of that object stands for the key \<open>k.b\<close> of the list, holds what that key
  names in the data, and is not held a second time under the dotted name. No name
  occurs twice.
\<close>

definition holds_only_picked :: "string list \<Rightarrow> jsval \<Rightarrow> jsval \<Rightarrow> bool" where
  "holds_only_picked allow d out =
     (case out of
        Obj kvs \<Rightarrow>
          distinct (map fst kvs) \<and>
          list_all
            (\<lambda>(k, w).
               (k \<in> set allow \<and> prop_at d k = Some w) \<or>
               (case w of
                  Obj kvs' \<Rightarrow>
                    kvs' \<noteq> [] \<and> distinct (map fst kvs') \<and>
                    list_all
                      (\<lambda>(b, u). k @ ''.'' @ b \<in> set allow \<and>
                                 k @ ''.'' @ b \<notin> set (map fst kvs) \<and>
                                 prop_at d (k @ ''.'' @ b) = Some u) kvs'
                | _ \<Rightarrow> False)) kvs
      | _ \<Rightarrow> False)"

definition known_types :: "string list" where
  "known_types =
     [COLLECTIVE_TRANSACTION_CREATED, COLLECTIVE_UPDATE_PUBLISHED, COLLECTIVE_EXPENSE_CREATED]"

definition allowlist :: "string \<Rightarrow> string list" where
  "allowlist t =
     (if t = COLLECTIVE_TRANSACTION_CREATED then transaction_created_paths
      else if t = COLLECTIVE_UPDATE_PUBLISHED then update_published_paths
      else if t = COLLECTIVE_EXPENSE_CREATED then expense_created_paths
      else [])"

subsection \<open>What \<open>pick\<close> has built so far\<close>

text \<open>
  The allowlists hold paths of two segments, neither of them a key that \<open>baseSet\<close>
  refuses.
\<close>

definition two_segments :: "string \<Rightarrow> bool" where
  "two_segments p =
     (case stringToPath p of
        [a, b] \<Rightarrow> \<not> unsafe_key a \<and> \<not> unsafe_key b
      | _ \<Rightarrow> False)"

text \<open>
  The object \<open>pick\<close> builds from the paths \<open>ps\<close> of two segments over the data \<open>d\<close>:
  under a dotted name it holds the data's property of that name, for the paths the
  data has as names; under a first segment it holds an object with the second
  segments of the other paths that the data has, each with the data's value.
\<close>

definition picked_flat :: "jsval \<Rightarrow> string list \<Rightarrow> string \<Rightarrow> jsval option" where
  "picked_flat d ps k = (if k \<in> set ps \<and> js_in k d then Some (js_prop d k) else None)"

definition picked_nested :: "jsval \<Rightarrow> string list \<Rightarrow> string \<Rightarrow> string \<Rightarrow> jsval option" where
  "picked_nested d ps a b =
     (if a @ ''.'' @ b \<in> set ps \<and> \<not> js_in (a @ ''.'' @ b) d
      then lookup_path d [a, b] else None)"

definition picked :: "jsval \<Rightarrow> string list \<Rightarrow> obj \<Rightarrow> bool" where
  "picked d ps kvs =
     (distinct (map fst kvs) \<and>
      (\<forall>k. CHR ''.'' \<in> set k \<longrightarrow> map_of kvs k = picked_flat d ps k) \<and>
      (\<forall>a. CHR ''.'' \<notin> set a \<longrightarrow>
         (case map_of kvs a of
            None \<Rightarrow> (\<forall>b. CHR ''.'' \<notin> set b \<longrightarrow> picked_nested d ps a b = None)
          | Some v \<Rightarrow>
              (\<exists>kvs'. v = Obj kvs' \<and> kvs' \<noteq> [] \<and> distinct (map fst kvs') \<and>
                 (\<forall>b. map_of kvs' b =
                        (if CHR ''.'' \<notin> set b then picked_nested d ps a b else None))))))"

subsection \<open>Concrete inputs\<close>

text \<open>The store over empty tables: no tier is found, and every page query answers
  \<open>{count: 0, rows: []}\<close>, the shape of the ORM's \<open>findAndCountAll\<close>.\<close>

definition empty_store :: store where
  "empty_store =
     \<lparr>Tier_findOne = (\<lambda>q. Inr None),
      Order_findAndCountAll = (\<lambda>q. Inr [(''count'', Num 0), (''rows'', Arr [])]),
      Transaction_findAndCountAll = (\<lambda>q. Inr [(''count'', Num 0), (''rows'', Arr [])])\<rparr>"

definition example_account :: collective where
  "example_account =
     \<lparr>collective_id = 7, slug = ''babel'', name = Some ''Babel'', description = None,
      website = None, twitterHandle = None, githubHandle = None,
      createdAt = Some (Date 1546300800000), updatedAt = None\<rparr>"

definition default_order :: chronological_order where
  "default_order = \<lparr>field = Str ''createdAt'', direction = Str ''DESC''\<rparr>"

definition example_orders_args :: orders_args where
  "example_orders_args =
     \<lparr>limit = Some 100, offset = Some 0, orderBy = Some default_order,
      sent = Some True, received = Some True, status = None, tierSlug = None\<rparr>"

definition example_transactions_args :: transactions_args where
  "example_transactions_args =
     \<lparr>limit = Some 100, offset = Some 0, orderBy = Some default_order,
      transaction_type = None\<rparr>"

definition example_tiers :: "tier list" where
  "example_tiers =
     [\<lparr>tier_id = 1, tier_CollectiveId = 8, tier_slug = ''gold''\<rparr>,
      \<lparr>tier_id = 2, tier_CollectiveId = 7, tier_slug = ''gold''\<rparr>]"

definition example_order_row :: order_row where
  "example_order_row =
     \<lparr>order_id = 1, order_CollectiveId = 7, order_FromCollectiveId = 9,
      order_status = ''ACTIVE'', order_TierId = Some 2\<rparr>"

definition example_activity :: jsval where
  "example_activity =
     Obj [(''id'', Num 3),
          (''type'', Str ''collective.transaction.created''),
          (''CollectiveId'', Num 7),
          (''UserId'', Num 11),
          (''data'',
           Obj [(''fromCollective'',
                 Obj [(''type'', Str ''USER''), (''name'', Str ''Ada''),
                      (''email'', Str ''ada@example.com'')]),
                (''transaction'',
                 Obj [(''amount'', Num 500), (''currency'', Str ''USD''),
                      (''paymentToken'', Str ''tok_1'')]),
                (''user'', Obj [(''email'', Str ''ada@example.com'')])])]"

definition example_database :: database where
  "example_database =
     \<lparr>db_collectives = [example_account, example_account\<lparr>collective_id := 8, slug := ''myhost''\<rparr>],
      db_legalDocuments = []\<rparr>"

text \<open>
  A lowercasing function for the concrete inputs, whose slugs are ASCII: on a string of
  ASCII characters it computes what \<open>String.prototype.toLowerCase\<close> does.
\<close>

definition ascii_toLowerCase :: "string \<Rightarrow> string" where
  "ascii_toLowerCase s =
     map (\<lambda>c. if 65 \<le> (of_char c :: nat) \<and> (of_char c :: nat) \<le> 90
              then char_of (of_char c + (32 :: nat)) else c) s"

definition example_sent_row :: order_row where
  "example_sent_row =
     \<lparr>order_id = 2, order_CollectiveId = 3, order_FromCollectiveId = 7,
      order_status = ''PAID'', order_TierId = None\<rparr>"

definition example_store :: store where
  "example_store = empty_store\<lparr>Tier_findOne := table_findOne example_tiers\<rparr>"

definition example_unknown_activity :: jsval where
  "example_unknown_activity =
     Obj [(''id'', Num 4),
          (''type'', Str ''user.created''),
          (''data'', Obj [(''user'', Obj [(''email'', Str ''ada@example.com'')])])]"

definition example_legal_values :: legal_document_values where
  "example_legal_values =
     \<lparr>v_year = ''2019'', v_HostCollectiveId = Some 8, v_CollectiveId = Some 7\<rparr>"

section \<open>Properties of the orders and transactions resolvers\<close>

lemmas run_defs = run_bind_def run_return_def run_throw_def run_await_def

lemma fst_run_bind:
  "fst (run_bind m f) = (case snd m of Inl e \<Rightarrow> fst m | Inr x \<Rightarrow> fst m @ fst (f x))"
  by (cases m) (auto simp: run_bind_def split: sum.splits prod.splits)

lemma snd_run_bind:
  "snd (run_bind m f) = (case snd m of Inl e \<Rightarrow> Inl e | Inr x \<Rightarrow> snd (f x))"
  by (cases m) (auto simp: run_bind_def split: sum.splits prod.splits)

lemma orders_direction_calls: "fst (orders_direction collective args) = []"
  by (simp add: orders_direction_def run_return_def run_throw_def)

lemma orders_direction_error:
  "snd (orders_direction collective args) = Inl e \<Longrightarrow>
   e = NotFound ''At least one of `sent` or `received` needs to be true.'' \<and>
   \<not> truthy_bool (sent args) \<and> \<not> truthy_bool (received args)"
  by (simp add: orders_direction_def run_return_def run_throw_def split: if_splits)

lemma orders_status_keeps:
  "w_or (orders_status args w) = w_or w"
  "w_CollectiveId (orders_status args w) = w_CollectiveId w"
  "w_FromCollectiveId (orders_status args w) = w_FromCollectiveId w"
  "w_TierId (orders_status args w) = w_TierId w"
  by (simp_all add: orders_status_def split: option.splits)

lemma orders_tier_result:
  "snd (orders_tier toLowerCase models collective args w) = Inr w' \<Longrightarrow>
   w_or w' = w_or w \<and> w_CollectiveId w' = w_CollectiveId w \<and>
   w_FromCollectiveId w' = w_FromCollectiveId w \<and> w_status w' = w_status w"
  by (auto simp: orders_tier_def snd_run_bind run_return_def run_throw_def run_await_def Let_def
      split: option.splits if_splits sum.splits)

lemma orders_tier_calls:
  "Call_Order_findAndCountAll q \<notin> set (fst (orders_tier toLowerCase models collective args w))"
  by (auto simp: orders_tier_def fst_run_bind run_return_def run_throw_def run_await_def Let_def
      split: option.splits if_splits sum.splits)

lemma orders_page_calls:
  "Call_Order_findAndCountAll q \<in> set (fst (orders_page models args w)) \<Longrightarrow> fo_where q = w"
  by (auto simp: orders_page_def fst_run_bind run_return_def run_throw_def run_await_def Let_def
      split: option.splits if_splits sum.splits)

lemma orders_resolve_query:
  assumes "Call_Order_findAndCountAll q \<in> set (fst (accountOrders_resolve toLowerCase models collective args))"
  shows "\<exists>w0 w2. snd (orders_direction collective args) = Inr w0 \<and>
           snd (orders_tier toLowerCase models collective args (orders_status args w0)) = Inr w2 \<and>
           fo_where q = w2"
  using assms
  by (auto simp: accountOrders_resolve_def fst_run_bind orders_direction_calls orders_tier_calls
        Let_def dest: orders_page_calls split: sum.splits)


lemma orders_direction_result:
  "snd (orders_direction collective args) = Inr w \<Longrightarrow>
   w_status w = None \<and> w_TierId w = None \<and>
   (truthy_bool (sent args) \<and> truthy_bool (received args) \<longrightarrow>
      w_or w = Some \<lparr>or_CollectiveId = collective_id collective,
                      or_FromCollectiveId = collective_id collective\<rparr> \<and>
      w_CollectiveId w = None \<and> w_FromCollectiveId w = None) \<and>
   (truthy_bool (sent args) \<and> \<not> truthy_bool (received args) \<longrightarrow>
      w_or w = None \<and> w_CollectiveId w = None \<and>
      w_FromCollectiveId w = Some (collective_id collective)) \<and>
   (\<not> truthy_bool (sent args) \<and> truthy_bool (received args) \<longrightarrow>
      w_or w = None \<and> w_CollectiveId w = Some (collective_id collective) \<and>
      w_FromCollectiveId w = None)"
  by (auto simp: orders_direction_def run_return_def run_throw_def split: if_splits)

lemma orders_direction_ok:
  assumes "truthy_bool (sent args) \<or> truthy_bool (received args)"
  shows "\<exists>w0. orders_direction collective args = ([], Inr w0)"
  using assms by (auto simp: orders_direction_def run_return_def)

lemma orders_tier_none:
  assumes "\<not> truthy_string (tierSlug args)"
  shows "orders_tier toLowerCase models collective args w = ([], Inr w)"
  using assms
  by (auto simp: orders_tier_def truthy_string_def run_return_def split: option.splits)

lemma orders_tier_found:
  assumes "tierSlug args = Some s" and "s \<noteq> []"
    and "Tier_findOne models \<lparr>tier_where_CollectiveId = collective_id collective,
                              tier_where_slug = toLowerCase s\<rparr> = Inr (Some t)"
  shows "orders_tier toLowerCase models collective args w =
           ([Call_Tier_findOne \<lparr>tier_where_CollectiveId = collective_id collective,
                                tier_where_slug = toLowerCase s\<rparr>],
            Inr (w\<lparr>w_TierId := Some (tier_id t)\<rparr>))"
  using assms by (simp add: orders_tier_def run_defs Let_def)

lemma orders_tier_ok:
  assumes "\<not> truthy_string (tierSlug args) \<or>
           (\<exists>s t. tierSlug args = Some s \<and>
                  Tier_findOne models \<lparr>tier_where_CollectiveId = collective_id collective,
                                         tier_where_slug = toLowerCase s\<rparr> = Inr (Some t))"
  shows "\<exists>cs w'. orders_tier toLowerCase models collective args w = (cs, Inr w')"
proof (cases "truthy_string (tierSlug args)")
  case False
  then show ?thesis by (simp add: orders_tier_none)
next
  case True
  then obtain s t where s: "tierSlug args = Some s"
    and t: "Tier_findOne models \<lparr>tier_where_CollectiveId = collective_id collective,
                                  tier_where_slug = toLowerCase s\<rparr> = Inr (Some t)"
    using assms by blast
  have "s \<noteq> []" using True s by (simp add: truthy_string_def)
  from orders_tier_found [where toLowerCase = toLowerCase, OF s this t] show ?thesis by simp
qed

lemma orders_page_issued:
  assumes "orderBy args = Some ob"
  shows "fst (orders_page models args w) =
           [Call_Order_findAndCountAll
              \<lparr>fo_where = w, fo_limit = limit args, fo_offset = offset args,
               fo_order = [(field ob, direction ob)]\<rparr>]"
  using assms
  by (auto simp: orders_page_def run_defs Let_def split: sum.splits)

lemma orders_page_calls_one:
  assumes "Call_Order_findAndCountAll q \<in> set (fst (orders_page models args w))"
    and "Call_Order_findAndCountAll q' \<in> set (fst (orders_page models args w))"
  shows "q = q'"
proof (cases "orderBy args")
  case None
  then show ?thesis
    using assms by (simp add: orders_page_def run_defs)
next
  case (Some ob)
  then show ?thesis
    using assms by (simp add: orders_page_issued)
qed

lemma orders_resolve_calls:
  assumes "Call_Order_findAndCountAll q \<in>
             set (fst (accountOrders_resolve toLowerCase models collective args))"
  shows "\<exists>w0 w2. snd (orders_direction collective args) = Inr w0 \<and>
           snd (orders_tier toLowerCase models collective args (orders_status args w0)) =
             Inr w2 \<and>
           Call_Order_findAndCountAll q \<in> set (fst (orders_page models args w2))"
  using assms
  by (auto simp: accountOrders_resolve_def fst_run_bind orders_direction_calls orders_tier_calls
        Let_def split: sum.splits)

lemma orders_query_issued:
  assumes dir: "truthy_bool (sent args) \<or> truthy_bool (received args)"
    and ob: "orderBy args = Some ob"
    and tier: "\<not> truthy_string (tierSlug args) \<or>
           (\<exists>s t. tierSlug args = Some s \<and>
                  Tier_findOne models \<lparr>tier_where_CollectiveId = collective_id collective,
                                         tier_where_slug = toLowerCase s\<rparr> = Inr (Some t))"
  shows "\<exists>q. Call_Order_findAndCountAll q \<in>
                 set (fst (accountOrders_resolve toLowerCase models collective args)) \<and>
             fo_limit q = limit args \<and> fo_offset q = offset args \<and>
             fo_order q = [(field ob, direction ob)]"
proof -
  obtain w0 where w0: "orders_direction collective args = ([], Inr w0)"
    using orders_direction_ok [OF dir] by blast
  obtain cs w2 where w2:
    "orders_tier toLowerCase models collective args (orders_status args w0) = (cs, Inr w2)"
    using orders_tier_ok [OF tier] by blast
  have "fst (accountOrders_resolve toLowerCase models collective args) =
          cs @ [Call_Order_findAndCountAll
                  \<lparr>fo_where = w2, fo_limit = limit args, fo_offset = offset args,
                   fo_order = [(field ob, direction ob)]\<rparr>]"
    by (simp add: accountOrders_resolve_def fst_run_bind w0 w2 orders_page_issued [OF ob])
  then have "Call_Order_findAndCountAll
                  \<lparr>fo_where = w2, fo_limit = limit args, fo_offset = offset args,
                   fo_order = [(field ob, direction ob)]\<rparr> \<in>
             set (fst (accountOrders_resolve toLowerCase models collective args))"
    by simp
  then show ?thesis
    by (intro exI [of _ "\<lparr>fo_where = w2, fo_limit = limit args, fo_offset = offset args,
                   fo_order = [(field ob, direction ob)]\<rparr>"]) simp
qed

lemma orders_where_issued:
  assumes "Call_Order_findAndCountAll q \<in>
             set (fst (accountOrders_resolve toLowerCase models collective args))"
  shows "(truthy_bool (sent args) \<and> truthy_bool (received args) \<longrightarrow>
            w_or (fo_where q) =
              Some \<lparr>or_CollectiveId = collective_id collective,
                    or_FromCollectiveId = collective_id collective\<rparr> \<and>
            w_CollectiveId (fo_where q) = None \<and>
            w_FromCollectiveId (fo_where q) = None \<and>
            (\<forall>r. where_holds (fo_where q) r \<longrightarrow>
                   order_CollectiveId r = collective_id collective \<or>
                   order_FromCollectiveId r = collective_id collective))
       \<and> (truthy_bool (sent args) \<and> \<not> truthy_bool (received args) \<longrightarrow>
            w_or (fo_where q) = None \<and>
            w_CollectiveId (fo_where q) = None \<and>
            w_FromCollectiveId (fo_where q) = Some (collective_id collective) \<and>
            (\<forall>r. where_holds (fo_where q) r \<longrightarrow>
                   order_FromCollectiveId r = collective_id collective))
       \<and> (\<not> truthy_bool (sent args) \<and> truthy_bool (received args) \<longrightarrow>
            w_or (fo_where q) = None \<and>
            w_CollectiveId (fo_where q) = Some (collective_id collective) \<and>
            w_FromCollectiveId (fo_where q) = None \<and>
            (\<forall>r. where_holds (fo_where q) r \<longrightarrow>
                   order_CollectiveId r = collective_id collective))"
proof -
  obtain w0 w2 where w0: "snd (orders_direction collective args) = Inr w0"
    and w2: "snd (orders_tier toLowerCase models collective args (orders_status args w0)) = Inr w2"
    and q: "fo_where q = w2"
    using orders_resolve_query [OF assms] by blast
  have keep: "w_or w2 = w_or w0" "w_CollectiveId w2 = w_CollectiveId w0"
    "w_FromCollectiveId w2 = w_FromCollectiveId w0"
    using orders_tier_result [OF w2] by (simp_all add: orders_status_keeps)
  show ?thesis
    using orders_direction_result [OF w0] keep
    by (auto simp: q where_holds_def)
qed

text \<open>
  C1. The orders query the resolver issues for an account, by direction. With \<open>sent\<close>
  and \<open>received\<close> both true its \<open>where\<close> object carries the \<open>[Op.or]\<close> of \<open>CollectiveId\<close>
  and \<open>FromCollectiveId\<close>, both the account's id, so every order it selects has the
  account as owner or as originator; with only \<open>sent\<close> true it carries
  \<open>FromCollectiveId\<close> alone (the account originates the order); with only \<open>received\<close>
  true it carries \<open>CollectiveId\<close> alone (the account owns the order). The query is
  issued, with the \<open>limit\<close>, \<open>offset\<close> and order of the call, whenever a direction is
  asked for, \<open>orderBy\<close> is an object and the tier slug is absent, empty or found; and
  no run issues two orders queries.
\<close>

theorem orders_where_by_direction:
  "(\<forall>q. Call_Order_findAndCountAll q \<in>
          set (fst (accountOrders_resolve toLowerCase models collective args)) \<longrightarrow>
      (truthy_bool (sent args) \<and> truthy_bool (received args) \<longrightarrow>
         w_or (fo_where q) =
           Some \<lparr>or_CollectiveId = collective_id collective,
                 or_FromCollectiveId = collective_id collective\<rparr> \<and>
         w_CollectiveId (fo_where q) = None \<and>
         w_FromCollectiveId (fo_where q) = None \<and>
         (\<forall>r. where_holds (fo_where q) r \<longrightarrow>
                order_CollectiveId r = collective_id collective \<or>
                order_FromCollectiveId r = collective_id collective)) \<and>
      (truthy_bool (sent args) \<and> \<not> truthy_bool (received args) \<longrightarrow>
         w_or (fo_where q) = None \<and>
         w_CollectiveId (fo_where q) = None \<and>
         w_FromCollectiveId (fo_where q) = Some (collective_id collective) \<and>
         (\<forall>r. where_holds (fo_where q) r \<longrightarrow>
                order_FromCollectiveId r = collective_id collective)) \<and>
      (\<not> truthy_bool (sent args) \<and> truthy_bool (received args) \<longrightarrow>
         w_or (fo_where q) = None \<and>
         w_CollectiveId (fo_where q) = Some (collective_id collective) \<and>
         w_FromCollectiveId (fo_where q) = None \<and>
         (\<forall>r. where_holds (fo_where q) r \<longrightarrow>
                order_CollectiveId r = collective_id collective))) \<and>
   ((truthy_bool (sent args) \<or> truthy_bool (received args)) \<and>
    orderBy args = Some ob \<and>
    (\<not> truthy_string (tierSlug args) \<or>
     (\<exists>s t. tierSlug args = Some s \<and>
            Tier_findOne models \<lparr>tier_where_CollectiveId = collective_id collective,
                                   tier_where_slug = toLowerCase s\<rparr> = Inr (Some t))) \<longrightarrow>
      (\<exists>q. Call_Order_findAndCountAll q \<in>
              set (fst (accountOrders_resolve toLowerCase models collective args)) \<and>
           fo_limit q = limit args \<and> fo_offset q = offset args \<and>
           fo_order q = [(field ob, direction ob)])) \<and>
   (\<forall>q q'. Call_Order_findAndCountAll q \<in>
              set (fst (accountOrders_resolve toLowerCase models collective args)) \<and>
            Call_Order_findAndCountAll q' \<in>
              set (fst (accountOrders_resolve toLowerCase models collective args)) \<longrightarrow>
            q = q')"
proof (rule conjI [OF _ conjI])
  show "\<forall>q. Call_Order_findAndCountAll q \<in>
          set (fst (accountOrders_resolve toLowerCase models collective args)) \<longrightarrow>
      (truthy_bool (sent args) \<and> truthy_bool (received args) \<longrightarrow>
         w_or (fo_where q) =
           Some \<lparr>or_CollectiveId = collective_id collective,
                 or_FromCollectiveId = collective_id collective\<rparr> \<and>
         w_CollectiveId (fo_where q) = None \<and>
         w_FromCollectiveId (fo_where q) = None \<and>
         (\<forall>r. where_holds (fo_where q) r \<longrightarrow>
                order_CollectiveId r = collective_id collective \<or>
                order_FromCollectiveId r = collective_id collective)) \<and>
      (truthy_bool (sent args) \<and> \<not> truthy_bool (received args) \<longrightarrow>
         w_or (fo_where q) = None \<and>
         w_CollectiveId (fo_where q) = None \<and>
         w_FromCollectiveId (fo_where q) = Some (collective_id collective) \<and>
         (\<forall>r. where_holds (fo_where q) r \<longrightarrow>
                order_FromCollectiveId r = collective_id collective)) \<and>
      (\<not> truthy_bool (sent args) \<and> truthy_bool (received args) \<longrightarrow>
         w_or (fo_where q) = None \<and>
         w_CollectiveId (fo_where q) = Some (collective_id collective) \<and>
         w_FromCollectiveId (fo_where q) = None \<and>
         (\<forall>r. where_holds (fo_where q) r \<longrightarrow>
                order_CollectiveId r = collective_id collective))"
    by (rule allI, rule impI, erule orders_where_issued)
next
  show "(truthy_bool (sent args) \<or> truthy_bool (received args)) \<and>
    orderBy args = Some ob \<and>
    (\<not> truthy_string (tierSlug args) \<or>
     (\<exists>s t. tierSlug args = Some s \<and>
            Tier_findOne models \<lparr>tier_where_CollectiveId = collective_id collective,
                                   tier_where_slug = toLowerCase s\<rparr> = Inr (Some t))) \<longrightarrow>
      (\<exists>q. Call_Order_findAndCountAll q \<in>
              set (fst (accountOrders_resolve toLowerCase models collective args)) \<and>
           fo_limit q = limit args \<and> fo_offset q = offset args \<and>
           fo_order q = [(field ob, direction ob)])"
  proof (rule impI)
    assume h: "(truthy_bool (sent args) \<or> truthy_bool (received args)) \<and>
      orderBy args = Some ob \<and>
      (\<not> truthy_string (tierSlug args) \<or>
       (\<exists>s t. tierSlug args = Some s \<and>
            Tier_findOne models \<lparr>tier_where_CollectiveId = collective_id collective,
                                   tier_where_slug = toLowerCase s\<rparr> = Inr (Some t)))"
    show "\<exists>q. Call_Order_findAndCountAll q \<in>
              set (fst (accountOrders_resolve toLowerCase models collective args)) \<and>
           fo_limit q = limit args \<and> fo_offset q = offset args \<and>
           fo_order q = [(field ob, direction ob)]"
      by (rule orders_query_issued
            [where toLowerCase = toLowerCase, OF conjunct1 [OF h]
              conjunct1 [OF conjunct2 [OF h]] conjunct2 [OF conjunct2 [OF h]]])
  qed
next
  show "\<forall>q q'. Call_Order_findAndCountAll q \<in>
              set (fst (accountOrders_resolve toLowerCase models collective args)) \<and>
            Call_Order_findAndCountAll q' \<in>
              set (fst (accountOrders_resolve toLowerCase models collective args)) \<longrightarrow>
            q = q'"
  proof (intro allI impI)
    fix q q'
    assume h: "Call_Order_findAndCountAll q \<in>
              set (fst (accountOrders_resolve toLowerCase models collective args)) \<and>
            Call_Order_findAndCountAll q' \<in>
              set (fst (accountOrders_resolve toLowerCase models collective args))"
    obtain w0 w2 where
      a: "snd (orders_direction collective args) = Inr w0"
         "snd (orders_tier toLowerCase models collective args (orders_status args w0)) = Inr w2"
         "Call_Order_findAndCountAll q \<in> set (fst (orders_page models args w2))"
      using orders_resolve_calls [OF conjunct1 [OF h]] by blast
    obtain w0' w2' where
      b: "snd (orders_direction collective args) = Inr w0'"
         "snd (orders_tier toLowerCase models collective args (orders_status args w0')) = Inr w2'"
         "Call_Order_findAndCountAll q' \<in> set (fst (orders_page models args w2'))"
      using orders_resolve_calls [OF conjunct2 [OF h]] by blast
    have "w0' = w0" using a(1) b(1) by simp
    then have "w2' = w2" using a(2) b(2) by simp
    then show "q = q'" using a(3) b(3) orders_page_calls_one by simp
  qed
qed

text \<open>
  The three directions on the empty store: each run issues its query, and the orders
  the three \<open>where\<close> objects select have the account as the claim says.
\<close>

theorem orders_where_by_direction_witness:
  "(Call_Order_findAndCountAll
      \<lparr>fo_where = \<lparr>w_or = Some \<lparr>or_CollectiveId = 7, or_FromCollectiveId = 7\<rparr>,
                   w_CollectiveId = None, w_FromCollectiveId = None,
                   w_status = None, w_TierId = None\<rparr>,
       fo_limit = Some 100, fo_offset = Some 0,
       fo_order = [(Str ''createdAt'', Str ''DESC'')]\<rparr>
      \<in> set (fst (accountOrders_resolve ascii_toLowerCase empty_store example_account
                    example_orders_args)) \<and>
    (order_CollectiveId example_order_row = 7 \<or> order_FromCollectiveId example_order_row = 7)) \<and>
   (Call_Order_findAndCountAll
      \<lparr>fo_where = \<lparr>w_or = None, w_CollectiveId = None, w_FromCollectiveId = Some 7,
                   w_status = None, w_TierId = None\<rparr>,
       fo_limit = Some 100, fo_offset = Some 0,
       fo_order = [(Str ''createdAt'', Str ''DESC'')]\<rparr>
      \<in> set (fst (accountOrders_resolve ascii_toLowerCase empty_store example_account
                    (example_orders_args\<lparr>received := Some False\<rparr>))) \<and>
    order_FromCollectiveId example_sent_row = 7) \<and>
   (Call_Order_findAndCountAll
      \<lparr>fo_where = \<lparr>w_or = None, w_CollectiveId = Some 7, w_FromCollectiveId = None,
                   w_status = None, w_TierId = None\<rparr>,
       fo_limit = Some 100, fo_offset = Some 0,
       fo_order = [(Str ''createdAt'', Str ''DESC'')]\<rparr>
      \<in> set (fst (accountOrders_resolve ascii_toLowerCase empty_store example_account
                    (example_orders_args\<lparr>sent := Some False\<rparr>))) \<and>
    order_CollectiveId example_order_row = 7) \<and>
   (\<exists>q. Call_Order_findAndCountAll q \<in>
           set (fst (accountOrders_resolve ascii_toLowerCase empty_store example_account
                       (example_orders_args\<lparr>received := Some False\<rparr>))) \<and>
        fo_limit q = Some 100 \<and> fo_offset q = Some 0 \<and>
        fo_order q = [(Str ''createdAt'', Str ''DESC'')]) \<and>
   (\<exists>q. Call_Order_findAndCountAll q \<in>
           set (fst (accountOrders_resolve ascii_toLowerCase empty_store example_account
                       (example_orders_args\<lparr>sent := Some False\<rparr>))) \<and>
        fo_limit q = Some 100 \<and> fo_offset q = Some 0 \<and>
        fo_order q = [(Str ''createdAt'', Str ''DESC'')])"
proof -
  let ?both = "\<lparr>w_or = Some \<lparr>or_CollectiveId = 7, or_FromCollectiveId = 7\<rparr>,
                w_CollectiveId = None, w_FromCollectiveId = None,
                w_status = None, w_TierId = None\<rparr>"
  let ?sent = "\<lparr>w_or = None, w_CollectiveId = None, w_FromCollectiveId = Some (7 :: int),
                w_status = None, w_TierId = None\<rparr>"
  let ?recv = "\<lparr>w_or = None, w_CollectiveId = Some (7 :: int), w_FromCollectiveId = None,
                w_status = None, w_TierId = None\<rparr>"
  let ?q = "\<lambda>w. \<lparr>fo_where = w, fo_limit = Some 100, fo_offset = Some 0,
                  fo_order = [(Str ''createdAt'', Str ''DESC'')]\<rparr>"
  let ?sargs = "example_orders_args\<lparr>received := Some False\<rparr>"
  let ?rargs = "example_orders_args\<lparr>sent := Some False\<rparr>"
  have id: "collective_id example_account = 7"
    by (simp add: example_account_def)
  have ib: "Call_Order_findAndCountAll (?q ?both) \<in>
      set (fst (accountOrders_resolve ascii_toLowerCase empty_store example_account
                  example_orders_args))"
    and isent: "Call_Order_findAndCountAll (?q ?sent) \<in>
      set (fst (accountOrders_resolve ascii_toLowerCase empty_store example_account ?sargs))"
    and ir: "Call_Order_findAndCountAll (?q ?recv) \<in>
      set (fst (accountOrders_resolve ascii_toLowerCase empty_store example_account ?rargs))"
    by code_simp+
  have tb: "truthy_bool (sent example_orders_args) \<and> truthy_bool (received example_orders_args)"
    and ts: "truthy_bool (sent ?sargs) \<and> \<not> truthy_bool (received ?sargs)"
    and tr: "\<not> truthy_bool (sent ?rargs) \<and> truthy_bool (received ?rargs)"
    by code_simp+
  have hb: "where_holds ?both example_order_row"
    and hs: "where_holds ?sent example_sent_row"
    and hr: "where_holds ?recv example_order_row"
    by code_simp+
  have ob: "orderBy ?sargs = Some default_order" "orderBy ?rargs = Some default_order"
    and nt: "\<not> truthy_string (tierSlug ?sargs)" "\<not> truthy_string (tierSlug ?rargs)"
    and lim: "limit ?sargs = Some 100" "offset ?sargs = Some 0"
      "limit ?rargs = Some 100" "offset ?rargs = Some 0"
      "[(field default_order, direction default_order)] = [(Str ''createdAt'', Str ''DESC'')]"
    by (simp_all add: example_orders_args_def truthy_string_def default_order_def)
  note thm_b = orders_where_by_direction
    [of ascii_toLowerCase empty_store example_account example_orders_args default_order]
  note thm_s = orders_where_by_direction
    [of ascii_toLowerCase empty_store example_account ?sargs default_order]
  note thm_r = orders_where_by_direction
    [of ascii_toLowerCase empty_store example_account ?rargs default_order]
  have rb: "order_CollectiveId example_order_row = 7 \<or>
            order_FromCollectiveId example_order_row = 7"
    using thm_b [THEN conjunct1, rule_format, OF ib, THEN conjunct1, rule_format, OF tb]
      hb by (simp add: id)
  have rs: "order_FromCollectiveId example_sent_row = 7"
    using thm_s [THEN conjunct1, rule_format, OF isent, THEN conjunct2, THEN conjunct1,
        rule_format, OF ts] hs
    by (simp add: id)
  have rr: "order_CollectiveId example_order_row = 7"
    using thm_r [THEN conjunct1, rule_format, OF ir, THEN conjunct2, THEN conjunct2,
        rule_format, OF tr] hr
    by (simp add: id)
  have es: "\<exists>q. Call_Order_findAndCountAll q \<in>
           set (fst (accountOrders_resolve ascii_toLowerCase empty_store example_account ?sargs)) \<and>
        fo_limit q = Some 100 \<and> fo_offset q = Some 0 \<and>
        fo_order q = [(Str ''createdAt'', Str ''DESC'')]"
    using thm_s [THEN conjunct2, THEN conjunct1] ts ob(1) nt(1)
    by (simp only: lim) blast
  have er: "\<exists>q. Call_Order_findAndCountAll q \<in>
           set (fst (accountOrders_resolve ascii_toLowerCase empty_store example_account ?rargs)) \<and>
        fo_limit q = Some 100 \<and> fo_offset q = Some 0 \<and>
        fo_order q = [(Str ''createdAt'', Str ''DESC'')]"
    using thm_r [THEN conjunct2, THEN conjunct1] tr ob(2) nt(2)
    by (simp only: lim) blast
  show ?thesis
    by (intro conjI ib isent ir rb rs rr es er)
qed

text \<open>
  C2. An orders query called with \<open>sent = false\<close> and \<open>received = false\<close> ends in a
  \<open>NotFound\<close> error, and the run has issued no store call.
\<close>

theorem orders_neither_direction_not_found:
  "accountOrders_resolve toLowerCase models collective
     (args\<lparr>sent := Some False, received := Some False\<rparr>) =
   ([], Inl (NotFound ''At least one of `sent` or `received` needs to be true.''))"
  by (simp add: accountOrders_resolve_def orders_direction_def truthy_bool_def run_defs)


lemma spread_keys: "fst ` set (spread base result) = fst ` set base \<union> fst ` set result"
  unfolding spread_def
proof (induction result arbitrary: base)
  case Nil
  show ?case by simp
next
  case (Cons kv result)
  obtain k v where kv: "kv = (k, v)" by (cases kv)
  show ?case
    using Cons.IH [of "AList.update k v base"]
    by (auto simp: kv AList.dom_update)
qed

lemma spread_map_of_base:
  "k \<notin> fst ` set result \<Longrightarrow> map_of (spread base result) k = map_of base k"
  unfolding spread_def
proof (induction result arbitrary: base)
  case Nil
  show ?case by simp
next
  case (Cons kv result)
  obtain k' v' where kv: "kv = (k', v')" by (cases kv)
  have "k \<noteq> k'" and "k \<notin> fst ` set result"
    using Cons.prems by (auto simp: kv)
  then show ?case
    using Cons.IH [of "AList.update k' v' base"]
    by (simp add: kv AList.update_conv')
qed

lemma spread_map_of_result:
  "distinct (map fst result) \<Longrightarrow> (k, v) \<in> set result \<Longrightarrow>
   map_of (spread base result) k = Some v"
proof (induction result arbitrary: base)
  case Nil
  then show ?case by simp
next
  case (Cons kv result)
  obtain k' v' where kv: "kv = (k', v')" by (cases kv)
  have step: "spread base ((k', v') # result) = spread (AList.update k' v' base) result"
    by (simp add: spread_def)
  show ?case
  proof (cases "(k, v) = kv")
    case True
    then have "k \<notin> fst ` set result"
      using Cons.prems(1) by (auto simp: kv)
    then show ?thesis
      using True by (simp add: kv step spread_map_of_base AList.update_conv')
  next
    case False
    then have "(k, v) \<in> set result" using Cons.prems(2) by simp
    moreover have "distinct (map fst result)" using Cons.prems(1) by simp
    ultimately show ?thesis
      using Cons.IH [of "AList.update k' v' base"] by (simp add: kv step)
  qed
qed

lemma page_of_result_spread:
  "page_of_result args result
     (Obj (spread [(''limit'', js_of_int (limit args)),
                   (''offset'', js_of_int (offset args))] result))"
  unfolding page_of_result_def
  apply (simp add: spread_keys spread_map_of_base list_all_iff)
  apply (auto simp: spread_map_of_result)
  done

lemma orders_page_result:
  assumes "snd (orders_page models args w) = Inr page"
  shows "\<exists>options result.
           fst (orders_page models args w) = [Call_Order_findAndCountAll options] \<and>
           Order_findAndCountAll models options = Inr result \<and>
           page_of_result args result page"
  using assms
  by (auto simp: orders_page_def run_defs Let_def page_of_result_spread
      split: option.splits sum.splits)

lemma orders_resolve_result:
  assumes "snd (accountOrders_resolve toLowerCase models collective args) = Inr page"
  shows "\<exists>w. snd (orders_page models args w) = Inr page \<and>
             set (fst (orders_page models args w)) \<subseteq>
               set (fst (accountOrders_resolve toLowerCase models collective args))"
  using assms
  by (auto simp: accountOrders_resolve_def fst_run_bind snd_run_bind Let_def split: sum.splits)

text \<open>
  C3, as the code has it. A transactions or orders call that does not fail has issued
  its \<open>findAndCountAll\<close> query and returns that query's result object with \<open>limit\<close>
  and \<open>offset\<close> added: the keys are \<open>limit\<close>, \<open>offset\<close> and the result's own (\<open>count\<close>
  and \<open>rows\<close> for the ORM), every property of the result is in the page, and \<open>limit\<close>
  and \<open>offset\<close> hold the arguments of the call unless the result has a property of
  that name.
\<close>

theorem page_is_result_with_limit_and_offset:
  "(snd (accountTransactions_resolve models collective targs) = Inr page \<longrightarrow>
      (\<exists>options result.
          Call_Transaction_findAndCountAll options \<in>
            set (fst (accountTransactions_resolve models collective targs)) \<and>
          Transaction_findAndCountAll models options = Inr result \<and>
          page_of_result targs result page)) \<and>
   (snd (accountOrders_resolve toLowerCase models collective oargs) = Inr page' \<longrightarrow>
      (\<exists>options result.
          Call_Order_findAndCountAll options \<in>
            set (fst (accountOrders_resolve toLowerCase models collective oargs)) \<and>
          Order_findAndCountAll models options = Inr result \<and>
          page_of_result oargs result page'))"
proof (intro conjI impI)
  assume "snd (accountTransactions_resolve models collective targs) = Inr page"
  then show "\<exists>options result.
          Call_Transaction_findAndCountAll options \<in>
            set (fst (accountTransactions_resolve models collective targs)) \<and>
          Transaction_findAndCountAll models options = Inr result \<and>
          page_of_result targs result page"
    by (auto simp: accountTransactions_resolve_def run_defs Let_def page_of_result_spread
        split: if_splits option.splits sum.splits prod.splits)
next
  assume a: "snd (accountOrders_resolve toLowerCase models collective oargs) = Inr page'"
  obtain w where w: "snd (orders_page models oargs w) = Inr page'"
    and sub: "set (fst (orders_page models oargs w)) \<subseteq>
               set (fst (accountOrders_resolve toLowerCase models collective oargs))"
    using orders_resolve_result [OF a] by blast
  obtain options result where
    "fst (orders_page models oargs w) = [Call_Order_findAndCountAll options]"
    "Order_findAndCountAll models options = Inr result"
    "page_of_result oargs result page'"
    using orders_page_result [OF w] by blast
  then show "\<exists>options result.
          Call_Order_findAndCountAll options \<in>
            set (fst (accountOrders_resolve toLowerCase models collective oargs)) \<and>
          Order_findAndCountAll models options = Inr result \<and>
          page_of_result oargs result page'"
    using sub by auto
qed

lemma example_orders_run:
  "accountOrders_resolve ascii_toLowerCase empty_store example_account example_orders_args =
     ([Call_Order_findAndCountAll
         \<lparr>fo_where = \<lparr>w_or = Some \<lparr>or_CollectiveId = 7, or_FromCollectiveId = 7\<rparr>,
                      w_CollectiveId = None, w_FromCollectiveId = None,
                      w_status = None, w_TierId = None\<rparr>,
          fo_limit = Some 100, fo_offset = Some 0,
          fo_order = [(Str ''createdAt'', Str ''DESC'')]\<rparr>],
      Inr (Obj [(''limit'', Num 100), (''offset'', Num 0), (''count'', Num 0),
                (''rows'', Arr [])]))"
  by code_simp


text \<open>
  The default orders query on the empty store.
\<close>

theorem page_is_result_with_limit_and_offset_witness:
  "snd (accountOrders_resolve ascii_toLowerCase empty_store example_account example_orders_args) =
     Inr (Obj [(''limit'', Num 100), (''offset'', Num 0), (''count'', Num 0),
               (''rows'', Arr [])]) \<and>
   (\<exists>options result.
      Call_Order_findAndCountAll options \<in>
        set (fst (accountOrders_resolve ascii_toLowerCase empty_store example_account example_orders_args)) \<and>
      Order_findAndCountAll empty_store options = Inr result \<and>
      page_of_result example_orders_args result
        (Obj [(''limit'', Num 100), (''offset'', Num 0), (''count'', Num 0),
              (''rows'', Arr [])]))"
proof -
  have run: "snd (accountOrders_resolve ascii_toLowerCase empty_store example_account example_orders_args) =
     Inr (Obj [(''limit'', Num 100), (''offset'', Num 0), (''count'', Num 0),
               (''rows'', Arr [])])"
    by (simp only: example_orders_run snd_conv)
  show ?thesis
    by (rule conjI [OF run
          page_is_result_with_limit_and_offset [THEN conjunct2, THEN mp, OF run]])
qed

text \<open>
  C3, as the specification words it, fails: on the empty store the transactions
  resolver returns \<open>{limit: 100, offset: 0, count: 0, rows: []}\<close>, which has neither a
  \<open>totalCount\<close> nor an \<open>items\<close> key.
\<close>

theorem spec_page_shape_counterexample:
  "snd (accountTransactions_resolve empty_store example_account example_transactions_args) =
     Inr (Obj [(''limit'', Num 100), (''offset'', Num 0), (''count'', Num 0),
               (''rows'', Arr [])]) \<and>
   \<not> spec_page_shape example_transactions_args
       (Obj [(''limit'', Num 100), (''offset'', Num 0), (''count'', Num 0),
             (''rows'', Arr [])])"
  by code_simp

lemma orders_tier_not_found:
  assumes "tierSlug args = Some s" and "s \<noteq> []"
    and "Tier_findOne models \<lparr>tier_where_CollectiveId = collective_id collective,
                              tier_where_slug = toLowerCase s\<rparr> = Inr None"
  shows "orders_tier toLowerCase models collective args w =
           ([Call_Tier_findOne \<lparr>tier_where_CollectiveId = collective_id collective,
                                tier_where_slug = toLowerCase s\<rparr>],
            Inl (NotFound ''TierSlug Not Found''))"
  using assms by (simp add: orders_tier_def run_defs Let_def)

lemma orders_resolve_not_found:
  assumes "tierSlug args = Some s" and "s \<noteq> []"
    and "Tier_findOne models \<lparr>tier_where_CollectiveId = collective_id collective,
                              tier_where_slug = toLowerCase s\<rparr> = Inr None"
  shows "(\<exists>msg. snd (accountOrders_resolve toLowerCase models collective args) =
                  Inl (NotFound msg)) \<and>
         (\<forall>q. Call_Order_findAndCountAll q \<notin>
                 set (fst (accountOrders_resolve toLowerCase models collective args)))"
proof (cases "snd (orders_direction collective args)")
  case (Inl e)
  then show ?thesis
    using orders_direction_error [OF Inl]
    by (simp add: accountOrders_resolve_def fst_run_bind snd_run_bind orders_direction_calls)
next
  case (Inr w0)
  then show ?thesis
    by (simp add: accountOrders_resolve_def fst_run_bind snd_run_bind orders_direction_calls
          orders_tier_not_found [where toLowerCase = toLowerCase, OF assms] Let_def)
qed

text \<open>
  C7, as the code has it. An orders query with a non-empty \<open>tierSlug\<close> for whose
  lowercased form the store finds no tier of the account ends in a \<open>NotFound\<close> error,
  and no orders query is issued. This holds whatever lowercasing does to the slug.
\<close>

theorem unknown_tier_slug_not_found:
  assumes "tierSlug args = Some s" and "s \<noteq> []"
    and "Tier_findOne models \<lparr>tier_where_CollectiveId = collective_id collective,
                              tier_where_slug = toLowerCase s\<rparr> = Inr None"
  shows "(\<exists>msg. snd (accountOrders_resolve toLowerCase models collective args) = Inl (NotFound msg)) \<and>
         (\<forall>q. Call_Order_findAndCountAll q \<notin>
                 set (fst (accountOrders_resolve toLowerCase models collective args)))"
  by (rule orders_resolve_not_found [where toLowerCase = toLowerCase, OF assms])

text \<open>
  The slug \<open>Gold\<close> on the empty store.
\<close>

theorem unknown_tier_slug_not_found_witness:
  "tierSlug (example_orders_args\<lparr>tierSlug := Some ''Gold''\<rparr>) = Some ''Gold'' \<and>
   Tier_findOne empty_store
     \<lparr>tier_where_CollectiveId = collective_id example_account,
      tier_where_slug = ascii_toLowerCase ''Gold''\<rparr> = Inr None \<and>
   (\<exists>msg. snd (accountOrders_resolve ascii_toLowerCase empty_store example_account
                 (example_orders_args\<lparr>tierSlug := Some ''Gold''\<rparr>)) = Inl (NotFound msg))"
proof -
  have a: "tierSlug (example_orders_args\<lparr>tierSlug := Some ''Gold''\<rparr>) = Some ''Gold''"
    by simp
  have b: "''Gold'' \<noteq> []" by simp
  have c: "Tier_findOne empty_store
     \<lparr>tier_where_CollectiveId = collective_id example_account,
      tier_where_slug = ascii_toLowerCase ''Gold''\<rparr> = Inr None"
    by (simp add: empty_store_def)
  show ?thesis
    using a c unknown_tier_slug_not_found [where toLowerCase = ascii_toLowerCase, OF a b c, THEN conjunct1]
    by (intro conjI)
qed

text \<open>
  C7, as the specification words it, fails for the empty string: it is a \<open>tierSlug\<close>
  that no tier of the account has, yet the resolver treats it as no slug at all,
  issues the unfiltered orders query and returns its page.
\<close>

theorem empty_tier_slug_counterexample:
  "tierSlug (example_orders_args\<lparr>tierSlug := Some []\<rparr>) = Some [] \<and>
   Tier_findOne empty_store
     \<lparr>tier_where_CollectiveId = collective_id example_account,
      tier_where_slug = ascii_toLowerCase []\<rparr> = Inr None \<and>
   accountOrders_resolve ascii_toLowerCase empty_store example_account
     (example_orders_args\<lparr>tierSlug := Some []\<rparr>) =
     ([Call_Order_findAndCountAll
         \<lparr>fo_where = \<lparr>w_or = Some \<lparr>or_CollectiveId = 7, or_FromCollectiveId = 7\<rparr>,
                      w_CollectiveId = None, w_FromCollectiveId = None,
                      w_status = None, w_TierId = None\<rparr>,
          fo_limit = Some 100, fo_offset = Some 0,
          fo_order = [(Str ''createdAt'', Str ''DESC'')]\<rparr>],
      Inr (Obj [(''limit'', Num 100), (''offset'', Num 0), (''count'', Num 0),
                (''rows'', Arr [])]))"
  by code_simp

lemma orders_tier_calls_tier:
  assumes "Call_Tier_findOne q \<in> set (fst (orders_tier toLowerCase models collective args w))"
  shows "\<exists>s. tierSlug args = Some s \<and>
             q = \<lparr>tier_where_CollectiveId = collective_id collective,
                  tier_where_slug = toLowerCase s\<rparr>"
  using assms
  by (auto simp: orders_tier_def fst_run_bind run_return_def run_throw_def run_await_def Let_def
      split: option.splits if_splits sum.splits)

lemma orders_page_calls_tier:
  "Call_Tier_findOne q \<notin> set (fst (orders_page models args w))"
  by (auto simp: orders_page_def fst_run_bind run_return_def run_throw_def run_await_def Let_def
      split: option.splits if_splits sum.splits)

lemma orders_resolve_calls_tier:
  assumes "Call_Tier_findOne q \<in> set (fst (accountOrders_resolve toLowerCase models collective args))"
  shows "\<exists>w. Call_Tier_findOne q \<in> set (fst (orders_tier toLowerCase models collective args w))"
  using assms
  by (auto simp: accountOrders_resolve_def fst_run_bind orders_direction_calls
        orders_page_calls_tier Let_def split: sum.splits)

lemma orders_tier_same_lowercase:
  assumes "toLowerCase s = toLowerCase s'" and "s = [] \<longleftrightarrow> s' = []"
  shows "orders_tier toLowerCase models collective (args\<lparr>tierSlug := Some s\<rparr>) w =
         orders_tier toLowerCase models collective (args\<lparr>tierSlug := Some s'\<rparr>) w"
  using assms by (simp add: orders_tier_def Let_def)

lemma orders_tier_table:
  assumes "Tier_findOne models = table_findOne tiers"
    and "snd (orders_tier toLowerCase models collective args w) = Inr w'"
    and "w_TierId w = None" and "w_TierId w' = Some tid"
  shows "\<exists>t\<in>set tiers. \<exists>s. tierSlug args = Some s \<and> tier_id t = tid \<and>
           tier_CollectiveId t = collective_id collective \<and> tier_slug t = toLowerCase s"
  using assms
  by (auto simp: orders_tier_def snd_run_bind run_return_def run_throw_def run_await_def Let_def
        table_findOne_def find_Some_iff
      split: option.splits if_splits sum.splits)

lemma table_findOne_none:
  assumes "\<forall>t\<in>set tiers. tier_slug t = sl \<longrightarrow> tier_CollectiveId t \<noteq> i"
  shows "table_findOne tiers \<lparr>tier_where_CollectiveId = i, tier_where_slug = sl\<rparr> = Inr None"
  using assms by (auto simp: table_findOne_def find_None_iff)

text \<open>
  C9. Every tier lookup the orders resolver issues asks for the lowercased \<open>tierSlug\<close>
  among the tiers whose \<open>CollectiveId\<close> is the account's id. Two slugs that differ in
  letter case only, that is, two slugs with the same lowercase form (both empty or
  neither), give the same run. Over a table of tiers: a tier id that reaches the
  orders query is the id of a tier of this account whose slug is the lowercased
  \<open>tierSlug\<close>; and when every tier with that slug belongs to another collective, the
  run ends in \<open>NotFound\<close> with no orders query, so such a tier never resolves.
\<close>

theorem tier_lookup_lowercased_and_scoped:
  "(\<forall>q. Call_Tier_findOne q \<in>
          set (fst (accountOrders_resolve toLowerCase models collective args)) \<longrightarrow>
        (\<exists>s. tierSlug args = Some s \<and>
              q = \<lparr>tier_where_CollectiveId = collective_id collective,
                   tier_where_slug = toLowerCase s\<rparr>)) \<and>
   (toLowerCase s = toLowerCase s' \<and> (s = [] \<longleftrightarrow> s' = []) \<longrightarrow>
      accountOrders_resolve toLowerCase models collective (args\<lparr>tierSlug := Some s\<rparr>) =
      accountOrders_resolve toLowerCase models collective (args\<lparr>tierSlug := Some s'\<rparr>)) \<and>
   (Tier_findOne models = table_findOne tiers \<longrightarrow>
      (\<forall>q tid. Call_Order_findAndCountAll q \<in>
                  set (fst (accountOrders_resolve toLowerCase models collective args)) \<and>
                w_TierId (fo_where q) = Some tid \<longrightarrow>
         (\<exists>t\<in>set tiers. \<exists>s. tierSlug args = Some s \<and> tier_id t = tid \<and>
             tier_CollectiveId t = collective_id collective \<and>
             tier_slug t = toLowerCase s))) \<and>
   (Tier_findOne models = table_findOne tiers \<and> tierSlug args = Some s \<and> s \<noteq> [] \<and>
    (\<forall>t\<in>set tiers. tier_slug t = toLowerCase s \<longrightarrow>
                      tier_CollectiveId t \<noteq> collective_id collective) \<longrightarrow>
      (\<exists>msg. snd (accountOrders_resolve toLowerCase models collective args) =
               Inl (NotFound msg)) \<and>
      (\<forall>q. Call_Order_findAndCountAll q \<notin>
              set (fst (accountOrders_resolve toLowerCase models collective args))))"
proof (rule conjI [OF _ conjI [OF _ conjI]])
  show "\<forall>q. Call_Tier_findOne q \<in>
          set (fst (accountOrders_resolve toLowerCase models collective args)) \<longrightarrow>
        (\<exists>s. tierSlug args = Some s \<and>
              q = \<lparr>tier_where_CollectiveId = collective_id collective,
                   tier_where_slug = toLowerCase s\<rparr>)"
  proof (intro allI impI)
    fix q
    assume "Call_Tier_findOne q \<in>
              set (fst (accountOrders_resolve toLowerCase models collective args))"
    then obtain w where
      "Call_Tier_findOne q \<in> set (fst (orders_tier toLowerCase models collective args w))"
      using orders_resolve_calls_tier by blast
    then show "\<exists>s. tierSlug args = Some s \<and>
              q = \<lparr>tier_where_CollectiveId = collective_id collective,
                   tier_where_slug = toLowerCase s\<rparr>"
      by (rule orders_tier_calls_tier)
  qed
next
  show "toLowerCase s = toLowerCase s' \<and> (s = [] \<longleftrightarrow> s' = []) \<longrightarrow>
      accountOrders_resolve toLowerCase models collective (args\<lparr>tierSlug := Some s\<rparr>) =
      accountOrders_resolve toLowerCase models collective (args\<lparr>tierSlug := Some s'\<rparr>)"
  proof (rule impI)
    assume h: "toLowerCase s = toLowerCase s' \<and> (s = [] \<longleftrightarrow> s' = [])"
    show "accountOrders_resolve toLowerCase models collective (args\<lparr>tierSlug := Some s\<rparr>) =
          accountOrders_resolve toLowerCase models collective (args\<lparr>tierSlug := Some s'\<rparr>)"
      by (simp add: accountOrders_resolve_def orders_direction_def orders_status_def
            orders_page_def
            orders_tier_same_lowercase [where toLowerCase = toLowerCase,
              OF conjunct1 [OF h] conjunct2 [OF h]])
  qed
next
  show "Tier_findOne models = table_findOne tiers \<longrightarrow>
      (\<forall>q tid. Call_Order_findAndCountAll q \<in>
                  set (fst (accountOrders_resolve toLowerCase models collective args)) \<and>
                w_TierId (fo_where q) = Some tid \<longrightarrow>
         (\<exists>t\<in>set tiers. \<exists>s. tierSlug args = Some s \<and> tier_id t = tid \<and>
             tier_CollectiveId t = collective_id collective \<and>
             tier_slug t = toLowerCase s))"
  proof (intro allI impI)
    fix q tid
    assume t: "Tier_findOne models = table_findOne tiers"
      and q: "Call_Order_findAndCountAll q \<in>
                set (fst (accountOrders_resolve toLowerCase models collective args)) \<and>
              w_TierId (fo_where q) = Some tid"
    obtain w0 w2 where w0: "snd (orders_direction collective args) = Inr w0"
      and w2: "snd (orders_tier toLowerCase models collective args (orders_status args w0)) =
                 Inr w2"
      and fo: "fo_where q = w2"
      using orders_resolve_query [OF conjunct1 [OF q]] by blast
    have n: "w_TierId (orders_status args w0) = None"
      using orders_direction_result [OF w0] by (simp add: orders_status_keeps)
    have s: "w_TierId w2 = Some tid"
      using q fo by simp
    show "\<exists>t\<in>set tiers. \<exists>s. tierSlug args = Some s \<and> tier_id t = tid \<and>
             tier_CollectiveId t = collective_id collective \<and>
             tier_slug t = toLowerCase s"
      by (rule orders_tier_table [where toLowerCase = toLowerCase, OF t w2 n s])
  qed
next
  show "Tier_findOne models = table_findOne tiers \<and> tierSlug args = Some s \<and> s \<noteq> [] \<and>
    (\<forall>t\<in>set tiers. tier_slug t = toLowerCase s \<longrightarrow>
                      tier_CollectiveId t \<noteq> collective_id collective) \<longrightarrow>
      (\<exists>msg. snd (accountOrders_resolve toLowerCase models collective args) =
               Inl (NotFound msg)) \<and>
      (\<forall>q. Call_Order_findAndCountAll q \<notin>
              set (fst (accountOrders_resolve toLowerCase models collective args)))"
  proof (rule impI)
    assume h: "Tier_findOne models = table_findOne tiers \<and> tierSlug args = Some s \<and>
      s \<noteq> [] \<and>
      (\<forall>t\<in>set tiers. tier_slug t = toLowerCase s \<longrightarrow>
                      tier_CollectiveId t \<noteq> collective_id collective)"
    then have t: "Tier_findOne models = table_findOne tiers"
      and s: "tierSlug args = Some s" and ne: "s \<noteq> []"
      and other: "\<forall>t\<in>set tiers. tier_slug t = toLowerCase s \<longrightarrow>
                      tier_CollectiveId t \<noteq> collective_id collective"
      by simp_all
    have none: "Tier_findOne models \<lparr>tier_where_CollectiveId = collective_id collective,
                              tier_where_slug = toLowerCase s\<rparr> = Inr None"
      using table_findOne_none [OF other] by (simp add: t)
    show "(\<exists>msg. snd (accountOrders_resolve toLowerCase models collective args) =
               Inl (NotFound msg)) \<and>
      (\<forall>q. Call_Order_findAndCountAll q \<notin>
              set (fst (accountOrders_resolve toLowerCase models collective args)))"
      by (rule orders_resolve_not_found [where toLowerCase = toLowerCase, OF s ne none])
  qed
qed

lemma example_tier_run:
  "accountOrders_resolve ascii_toLowerCase example_store example_account
     (example_orders_args\<lparr>tierSlug := Some ''GOLD''\<rparr>) =
     ([Call_Tier_findOne \<lparr>tier_where_CollectiveId = 7, tier_where_slug = ''gold''\<rparr>,
       Call_Order_findAndCountAll
         \<lparr>fo_where = \<lparr>w_or = Some \<lparr>or_CollectiveId = 7, or_FromCollectiveId = 7\<rparr>,
                      w_CollectiveId = None, w_FromCollectiveId = None,
                      w_status = None, w_TierId = Some 2\<rparr>,
          fo_limit = Some 100, fo_offset = Some 0,
          fo_order = [(Str ''createdAt'', Str ''DESC'')]\<rparr>],
      Inr (Obj [(''limit'', Num 100), (''offset'', Num 0), (''count'', Num 0),
                (''rows'', Arr [])]))"
  by code_simp

text \<open>
  Two tiers share the slug \<open>gold\<close>, the first of collective 8, the second of account 7.
  For account 7, \<open>GOLD\<close> and \<open>Gold\<close> give the same run; its lookup asks for \<open>gold\<close>
  among the tiers of account 7, and the tier that reaches the orders query is tier 2,
  a tier of account 7. For account 9, which has no tier, the slug does not resolve,
  though two tiers of other collectives have it.
\<close>

theorem tier_lookup_lowercased_and_scoped_witness:
  "ascii_toLowerCase ''GOLD'' = ascii_toLowerCase ''Gold'' \<and>
   accountOrders_resolve ascii_toLowerCase example_store example_account
     (example_orders_args\<lparr>tierSlug := Some ''GOLD''\<rparr>) =
   accountOrders_resolve ascii_toLowerCase example_store example_account
     (example_orders_args\<lparr>tierSlug := Some ''Gold''\<rparr>) \<and>
   Call_Tier_findOne \<lparr>tier_where_CollectiveId = 7, tier_where_slug = ''gold''\<rparr> \<in>
     set (fst (accountOrders_resolve ascii_toLowerCase example_store example_account
                 (example_orders_args\<lparr>tierSlug := Some ''GOLD''\<rparr>))) \<and>
   Tier_findOne example_store = table_findOne example_tiers \<and>
   (\<exists>t\<in>set example_tiers. tier_id t = 2 \<and> tier_CollectiveId t = 7 \<and>
       tier_slug t = ascii_toLowerCase ''GOLD'') \<and>
   (\<exists>msg. snd (accountOrders_resolve ascii_toLowerCase example_store
                 (example_account\<lparr>collective_id := 9\<rparr>)
                 (example_orders_args\<lparr>tierSlug := Some ''GOLD''\<rparr>)) = Inl (NotFound msg))"
proof -
  let ?args = "example_orders_args\<lparr>tierSlug := Some ''GOLD''\<rparr>"
  let ?q = "\<lparr>fo_where = \<lparr>w_or = Some \<lparr>or_CollectiveId = 7, or_FromCollectiveId = 7\<rparr>,
                      w_CollectiveId = None, w_FromCollectiveId = None,
                      w_status = None, w_TierId = Some 2\<rparr>,
          fo_limit = Some 100, fo_offset = Some 0,
          fo_order = [(Str ''createdAt'', Str ''DESC'')]\<rparr>"
  note thm7 = tier_lookup_lowercased_and_scoped
    [of ascii_toLowerCase example_store example_account ?args "''GOLD''" "''Gold''"
        example_tiers]
  note thm9 = tier_lookup_lowercased_and_scoped
    [of ascii_toLowerCase example_store "example_account\<lparr>collective_id := 9\<rparr>" ?args
        "''GOLD''" "''Gold''" example_tiers]
  have low: "ascii_toLowerCase ''GOLD'' = ascii_toLowerCase ''Gold''"
    by code_simp
  have ne: "(''GOLD'' = []) \<longleftrightarrow> (''Gold'' = [])"
    by simp
  have upd: "?args\<lparr>tierSlug := Some ''GOLD''\<rparr> = ?args"
    "?args\<lparr>tierSlug := Some ''Gold''\<rparr> = example_orders_args\<lparr>tierSlug := Some ''Gold''\<rparr>"
    by simp_all
  have same: "accountOrders_resolve ascii_toLowerCase example_store example_account ?args =
      accountOrders_resolve ascii_toLowerCase example_store example_account
        (example_orders_args\<lparr>tierSlug := Some ''Gold''\<rparr>)"
    using thm7 [THEN conjunct2, THEN conjunct1, rule_format, OF conjI [OF low ne]]
    by (simp only: upd)
  have look: "Call_Tier_findOne \<lparr>tier_where_CollectiveId = 7, tier_where_slug = ''gold''\<rparr> \<in>
     set (fst (accountOrders_resolve ascii_toLowerCase example_store example_account ?args))"
    by (simp only: example_tier_run fst_conv) simp
  have tab: "Tier_findOne example_store = table_findOne example_tiers"
    by (simp add: example_store_def)
  have issued: "Call_Order_findAndCountAll ?q \<in>
      set (fst (accountOrders_resolve ascii_toLowerCase example_store example_account ?args))"
    by (simp only: example_tier_run fst_conv) simp
  have tid: "w_TierId (fo_where ?q) = Some 2"
    by simp
  have "\<exists>t\<in>set example_tiers. \<exists>s. tierSlug ?args = Some s \<and> tier_id t = 2 \<and>
             tier_CollectiveId t = collective_id example_account \<and>
             tier_slug t = ascii_toLowerCase s"
    by (rule thm7 [THEN conjunct2, THEN conjunct2, THEN conjunct1, rule_format,
          OF tab conjI [OF issued tid]])
  then have scoped: "\<exists>t\<in>set example_tiers. tier_id t = 2 \<and> tier_CollectiveId t = 7 \<and>
       tier_slug t = ascii_toLowerCase ''GOLD''"
    by (auto simp: example_account_def)
  have s: "tierSlug ?args = Some ''GOLD''" and nonempty: "''GOLD'' \<noteq> []"
    by simp_all
  have other: "\<forall>t\<in>set example_tiers. tier_slug t = ascii_toLowerCase ''GOLD'' \<longrightarrow>
                 tier_CollectiveId t \<noteq> collective_id (example_account\<lparr>collective_id := 9\<rparr>)"
    by (simp add: example_tiers_def)
  have nf: "\<exists>msg. snd (accountOrders_resolve ascii_toLowerCase example_store
                 (example_account\<lparr>collective_id := 9\<rparr>) ?args) = Inl (NotFound msg)"
    using thm9 [THEN conjunct2, THEN conjunct2, THEN conjunct2, rule_format,
          OF conjI [OF tab conjI [OF s conjI [OF nonempty other]]]]
    by (rule conjunct1)
  show ?thesis
    by (intro conjI low same look tab scoped nf)
qed

text \<open>
  C10. The \<open>updatedAt\<close> field resolver answers the record's \<open>createdAt\<close> when the record
  has no \<open>updatedAt\<close>, and the \<open>updatedAt\<close> value itself when there is one.
\<close>

theorem updatedAt_falls_back_to_createdAt:
  "AccountFields_updatedAt (c\<lparr>updatedAt := None\<rparr>) = createdAt c \<and>
   AccountFields_updatedAt (c\<lparr>updatedAt := Some d\<rparr>) = Some d"
  by (simp add: AccountFields_updatedAt_def)

section \<open>Properties of the activity sanitizer\<close>

lemma js_in_map_of: "js_in k (Obj kvs) \<longleftrightarrow> map_of kvs k \<noteq> None"
  by (simp add: map_of_eq_None_iff)

lemma js_in_not_nullish: "js_in k v \<Longrightarrow> \<not> nullish v"
  by (cases v) (simp_all add: nullish_def)

lemma basePick_snoc:
  "basePick d (ps @ [p]) =
     (if hasIn d p then baseSet (basePick d ps) (castPath p d) (baseGet d p)
      else basePick d ps)"
  by (simp add: basePick_def)

lemma basePick_Nil: "basePick d [] = Obj []"
  by (simp add: basePick_def)

text \<open>Paths without a dot: the key itself.\<close>

lemma castPath_plain: "CHR ''.'' \<notin> set p \<Longrightarrow> castPath p d = [p]"
  by (simp add: castPath_def isKey_def)

lemma hasIn_plain: "CHR ''.'' \<notin> set p \<Longrightarrow> hasIn d p = js_in p d"
  using js_in_not_nullish [of p d]
  by (auto simp: hasIn_def castPath_plain)

lemma baseGet_plain: "CHR ''.'' \<notin> set p \<Longrightarrow> js_in p d \<Longrightarrow> baseGet d p = js_prop d p"
  using js_in_not_nullish [of p d]
  by (auto simp: baseGet_def castPath_plain)

lemma basePick_plain:
  assumes "\<forall>p\<in>set ps. CHR ''.'' \<notin> set p \<and> \<not> unsafe_key p"
  shows "\<exists>kvs. basePick d ps = Obj kvs \<and>
           (\<forall>k. map_of kvs k =
                 (if k \<in> set ps \<and> js_in k d then Some (js_prop d k) else None))"
  using assms
proof (induction ps rule: rev_induct)
  case Nil
  show ?case by (simp add: basePick_Nil)
next
  case (snoc p ps)
  then obtain kvs where kvs: "basePick d ps = Obj kvs"
    and m: "\<forall>k. map_of kvs k =
                 (if k \<in> set ps \<and> js_in k d then Some (js_prop d k) else None)"
    by auto
  have p: "CHR ''.'' \<notin> set p" "\<not> unsafe_key p" using snoc.prems by auto
  show ?case
  proof (cases "js_in p d")
    case True
    have "basePick d (ps @ [p]) = Obj (AList.update p (js_prop d p) kvs)"
      using True p by (simp add: basePick_snoc hasIn_plain castPath_plain baseGet_plain kvs
          isObject_def)
    then show ?thesis using m True by (auto simp: AList.update_conv')
  next
    case False
    have "basePick d (ps @ [p]) = Obj kvs"
      using False p by (simp add: basePick_snoc hasIn_plain kvs)
    then show ?thesis using m False by auto
  qed
qed

lemma pick_plain:
  assumes "\<forall>p\<in>set ps. CHR ''.'' \<notin> set p \<and> \<not> unsafe_key p"
  shows "\<exists>kvs. pick d ps = Obj kvs \<and>
           (\<forall>k. map_of kvs k =
                 (if k \<in> set ps \<and> js_in k d then Some (js_prop d k) else None))"
proof (cases "nullish d")
  case True
  then have "\<And>k. \<not> js_in k d" using js_in_not_nullish by blast
  then show ?thesis using True by (simp add: pick_def)
next
  case False
  then show ?thesis using basePick_plain [OF assms] by (simp add: pick_def)
qed

lemma common_fields:
  "\<exists>kvs. pick activity [''createdAt'', ''id'', ''type'', ''CollectiveId''] = Obj kvs \<and>
     (\<forall>k. map_of kvs k =
        (if k \<in> {''createdAt'', ''id'', ''type'', ''CollectiveId''} \<and> js_in k activity
         then Some (js_prop activity k) else None))"
proof -
  have "\<forall>p\<in>set [''createdAt'', ''id'', ''type'', ''CollectiveId''].
          CHR ''.'' \<notin> set p \<and> \<not> unsafe_key p"
    by (simp add: unsafe_key_def)
  from pick_plain [OF this, of activity] show ?thesis by simp
qed

lemma js_prop_absent: "\<not> js_in k v \<Longrightarrow> js_prop v k = Undefined"
  by (cases v) (force dest: map_of_SomeD split: option.splits)+

lemma common_type:
  "js_prop (pick activity [''createdAt'', ''id'', ''type'', ''CollectiveId'']) ''type'' =
   js_prop activity ''type''"
proof -
  obtain kvs where "pick activity [''createdAt'', ''id'', ''type'', ''CollectiveId''] = Obj kvs"
    and "\<forall>k. map_of kvs k =
        (if k \<in> {''createdAt'', ''id'', ''type'', ''CollectiveId''} \<and> js_in k activity
         then Some (js_prop activity k) else None)"
    using common_fields by blast
  then show ?thesis by (simp add: js_prop_absent)
qed

lemma update_twice: "AList.update k v (AList.update k v' al) = AList.update k v al"
  by (induction al) auto

lemma sanitizeActivity_result:
  "\<exists>kvs. pick activity [''createdAt'', ''id'', ''type'', ''CollectiveId''] = Obj kvs \<and>
     sanitizeActivity activity =
       Inr (Obj (AList.update ''data''
         (if js_prop activity ''type'' = Str COLLECTIVE_TRANSACTION_CREATED
          then pick (js_prop activity ''data'') transaction_created_paths
          else if js_prop activity ''type'' = Str COLLECTIVE_UPDATE_PUBLISHED
          then pick (js_prop activity ''data'') update_published_paths
          else if js_prop activity ''type'' = Str COLLECTIVE_EXPENSE_CREATED
          then pick (js_prop activity ''data'') expense_created_paths
          else Obj []) kvs))"
proof -
  obtain kvs where kvs: "pick activity [''createdAt'', ''id'', ''type'', ''CollectiveId''] = Obj kvs"
    using common_fields by blast
  have ty: "js_prop (Obj kvs) ''type'' = js_prop activity ''type''"
    using common_type [of activity] by (simp only: kvs)
  have mem: "js_prop activity ''type'' = Str t \<Longrightarrow>
             js_member activity ''data'' = Inr (js_prop activity ''data'')" for t
    by (cases activity) (simp_all add: js_member_def nullish_def)
  show ?thesis
    using mem
    by (simp add: sanitizeActivity_def Let_def kvs ty update_twice del: js_prop.simps)
qed

text \<open>
  C6. Whatever the activity, \<open>sanitizeActivity\<close> returns an object whose keys are among
  \<open>createdAt\<close>, \<open>id\<close>, \<open>type\<close>, \<open>CollectiveId\<close> and \<open>data\<close>: no other field of the input
  reaches the output. Each of the four common fields is there exactly when the input
  has it, with the input's value.
\<close>

theorem sanitized_top_level_keys:
  "\<exists>kvs. sanitizeActivity activity = Inr (Obj kvs) \<and>
     fst ` set kvs \<subseteq> {''createdAt'', ''id'', ''type'', ''CollectiveId'', ''data''} \<and>
     (\<forall>k\<in>{''createdAt'', ''id'', ''type'', ''CollectiveId''}.
        map_of kvs k = (if js_in k activity then Some (js_prop activity k) else None))"
proof -
  obtain kvs0 where kvs0: "pick activity [''createdAt'', ''id'', ''type'', ''CollectiveId''] = Obj kvs0"
    and m: "\<forall>k. map_of kvs0 k =
        (if k \<in> {''createdAt'', ''id'', ''type'', ''CollectiveId''} \<and> js_in k activity
         then Some (js_prop activity k) else None)"
    using common_fields by blast
  obtain data where out: "sanitizeActivity activity = Inr (Obj (AList.update ''data'' data kvs0))"
    using sanitizeActivity_result [of activity] kvs0 by auto
  have keys: "fst ` set kvs0 \<subseteq> {''createdAt'', ''id'', ''type'', ''CollectiveId''}"
  proof
    fix k assume "k \<in> fst ` set kvs0"
    then have "map_of kvs0 k \<noteq> None" by (simp add: map_of_eq_None_iff)
    then show "k \<in> {''createdAt'', ''id'', ''type'', ''CollectiveId''}"
      using m by (auto split: if_splits)
  qed
  have "fst ` set (AList.update ''data'' data kvs0) \<subseteq>
          {''createdAt'', ''id'', ''type'', ''CollectiveId'', ''data''}"
    using keys by (auto simp: AList.dom_update)
  moreover have "\<forall>k\<in>{''createdAt'', ''id'', ''type'', ''CollectiveId''}.
        map_of (AList.update ''data'' data kvs0) k =
          (if js_in k activity then Some (js_prop activity k) else None)"
    using m by (simp add: AList.update_conv')
  ultimately show ?thesis using out by blast
qed

text \<open>
  The example activity has a \<open>UserId\<close> field, which the sanitized activity has not.
\<close>

theorem sanitized_top_level_keys_witness:
  "js_in ''UserId'' example_activity \<and>
   (\<exists>kvs. sanitizeActivity example_activity = Inr (Obj kvs) \<and>
      fst ` set kvs \<subseteq> {''createdAt'', ''id'', ''type'', ''CollectiveId'', ''data''} \<and>
      ''UserId'' \<notin> fst ` set kvs \<and>
      map_of kvs ''id'' = Some (Num 3))"
proof -
  have u: "js_in ''UserId'' example_activity"
    and i: "js_in ''id'' example_activity"
    and v: "js_prop example_activity ''id'' = Num 3"
    by code_simp+
  obtain kvs where out: "sanitizeActivity example_activity = Inr (Obj kvs)"
    and keys: "fst ` set kvs \<subseteq> {''createdAt'', ''id'', ''type'', ''CollectiveId'', ''data''}"
    and vals: "\<forall>k\<in>{''createdAt'', ''id'', ''type'', ''CollectiveId''}.
        map_of kvs k = (if js_in k example_activity
                        then Some (js_prop example_activity k) else None)"
    using sanitized_top_level_keys [of example_activity] by blast
  have "''UserId'' \<notin> fst ` set kvs"
    using keys by auto
  moreover have "map_of kvs ''id'' = Some (Num 3)"
    using vals i v by simp
  ultimately show ?thesis using u out keys by blast
qed

text \<open>
  C5. For an activity whose type is not one of the three known types, the \<open>data\<close> of
  the sanitized activity is the empty object.
\<close>

theorem unknown_type_empty_data:
  assumes "js_prop activity ''type'' \<notin> Str ` set known_types"
  shows "\<exists>out. sanitizeActivity activity = Inr out \<and> js_prop out ''data'' = Obj []"
proof -
  obtain kvs where "sanitizeActivity activity =
       Inr (Obj (AList.update ''data''
         (if js_prop activity ''type'' = Str COLLECTIVE_TRANSACTION_CREATED
          then pick (js_prop activity ''data'') transaction_created_paths
          else if js_prop activity ''type'' = Str COLLECTIVE_UPDATE_PUBLISHED
          then pick (js_prop activity ''data'') update_published_paths
          else if js_prop activity ''type'' = Str COLLECTIVE_EXPENSE_CREATED
          then pick (js_prop activity ''data'') expense_created_paths
          else Obj []) kvs))"
    using sanitizeActivity_result [of activity] by blast
  moreover have "js_prop activity ''type'' \<noteq> Str COLLECTIVE_TRANSACTION_CREATED"
    "js_prop activity ''type'' \<noteq> Str COLLECTIVE_UPDATE_PUBLISHED"
    "js_prop activity ''type'' \<noteq> Str COLLECTIVE_EXPENSE_CREATED"
    using assms by (auto simp: known_types_def)
  ultimately have "sanitizeActivity activity = Inr (Obj (AList.update ''data'' (Obj []) kvs))"
    by simp
  then show ?thesis by (simp add: AList.update_conv')
qed

theorem unknown_type_empty_data_witness:
  "js_prop example_unknown_activity ''type'' \<notin> Str ` set known_types \<and>
   (\<exists>out. sanitizeActivity example_unknown_activity = Inr out \<and>
      js_prop out ''data'' = Obj [])"
proof -
  have h: "js_prop example_unknown_activity ''type'' \<notin> Str ` set known_types"
    by code_simp
  show ?thesis
    using h unknown_type_empty_data [OF h] by (rule conjI)
qed

lemma stringToPath_nonempty: "stringToPath p \<noteq> []"
  by (induction p) (auto split: list.splits)

lemma stringToPath_dotfree: "w \<in> set (stringToPath p) \<Longrightarrow> CHR ''.'' \<notin> set w"
proof (induction p arbitrary: w)
  case Nil
  then show ?case by simp
next
  case (Cons c cs)
  show ?case
  proof (cases "c = CHR ''.''")
    case True
    then show ?thesis using Cons by auto
  next
    case False
    obtain v vs where v: "stringToPath cs = v # vs"
      using stringToPath_nonempty [of cs] by (cases "stringToPath cs") auto
    then have "w = c # v \<or> w \<in> set vs"
      using Cons.prems False by simp
    then show ?thesis
      using Cons.IH [of v] Cons.IH [of w] v False by auto
  qed
qed

lemma stringToPath_plain: "CHR ''.'' \<notin> set p \<Longrightarrow> stringToPath p = [p]"
  by (induction p) auto

lemma stringToPath_join:
  "stringToPath p = w # ws \<Longrightarrow> p = w @ concat (map ((#) CHR ''.'') ws)"
proof (induction p arbitrary: w ws)
  case Nil
  then show ?case by simp
next
  case (Cons c cs)
  show ?case
  proof (cases "c = CHR ''.''")
    case True
    then have "w = []" and "stringToPath cs = ws"
      using Cons.prems by simp_all
    moreover obtain v vs where "ws = v # vs"
      using stringToPath_nonempty [of cs] \<open>stringToPath cs = ws\<close> by (cases ws) auto
    ultimately show ?thesis
      using Cons.IH [of v vs] True by simp
  next
    case False
    obtain v vs where v: "stringToPath cs = v # vs"
      using stringToPath_nonempty [of cs] by (cases "stringToPath cs") auto
    then have "w = c # v" and "ws = vs"
      using Cons.prems False by simp_all
    then show ?thesis
      using Cons.IH [OF v] by simp
  qed
qed

lemma stringToPath_dot:
  "CHR ''.'' \<notin> set a \<Longrightarrow> stringToPath (a @ CHR ''.'' # b) = a # stringToPath b"
  by (induction a) auto

lemma two_segmentsD:
  assumes "two_segments p"
  obtains a b where "stringToPath p = [a, b]" and "p = a @ ''.'' @ b"
    and "CHR ''.'' \<notin> set a" and "CHR ''.'' \<notin> set b"
    and "\<not> unsafe_key a" and "\<not> unsafe_key b"
proof -
  obtain a b where ab: "stringToPath p = [a, b]" and u: "\<not> unsafe_key a" "\<not> unsafe_key b"
    using assms by (auto simp: two_segments_def split: list.splits)
  have "p = a @ ''.'' @ b"
    using stringToPath_join [OF ab] by simp
  moreover have "CHR ''.'' \<notin> set a" "CHR ''.'' \<notin> set b"
    using stringToPath_dotfree [of _ p] ab by simp_all
  ultimately show ?thesis using that ab u by blast
qed

lemma dotted_inject:
  assumes "CHR ''.'' \<notin> set a" "CHR ''.'' \<notin> set b" "CHR ''.'' \<notin> set a'" "CHR ''.'' \<notin> set b'"
    and eq: "a @ ''.'' @ b = a' @ ''.'' @ b'"
  shows "a = a' \<and> b = b'"
proof -
  have "[a, b] = stringToPath (a @ ''.'' @ b)"
    using assms(1,2) by (simp add: stringToPath_dot stringToPath_plain)
  also have "\<dots> = stringToPath (a' @ ''.'' @ b')"
    by (simp only: eq)
  also have "\<dots> = [a', b']"
    using assms(3,4) by (simp add: stringToPath_dot stringToPath_plain)
  finally show ?thesis by (simp only: list.inject)
qed

lemma baseGet_loop_Undefined: "baseGet_loop Undefined ks = Undefined"
  by (cases ks) (simp_all add: nullish_def)

lemma hasPath_lookup: "hasPath_loop d l \<longleftrightarrow> lookup_path d l \<noteq> None"
proof (induction l arbitrary: d)
  case Nil
  show ?case by simp
next
  case (Cons k ks)
  show ?case
  proof (cases d)
    case (Obj kvs)
    show ?thesis
    proof (cases "map_of kvs k")
      case None
      then have "\<not> js_in k d" by (simp only: Obj js_in_map_of) simp
      then show ?thesis using None Obj by simp
    next
      case (Some v)
      then have "js_in k d" by (simp only: Obj js_in_map_of) simp
      moreover have "\<not> nullish d" by (simp add: Obj nullish_def)
      ultimately show ?thesis using Some Obj Cons.IH [of v] by simp
    qed
  qed (simp_all add: nullish_def)
qed

lemma baseGet_lookup:
  "baseGet_loop d l = (case lookup_path d l of Some v \<Rightarrow> v | None \<Rightarrow> Undefined)"
proof (induction l arbitrary: d)
  case Nil
  show ?case by simp
next
  case (Cons k ks)
  show ?case
  proof (cases d)
    case (Obj kvs)
    show ?thesis
    proof (cases "map_of kvs k")
      case None
      then show ?thesis by (simp add: Obj nullish_def baseGet_loop_Undefined)
    next
      case (Some v)
      then show ?thesis using Cons.IH [of v] by (simp add: Obj nullish_def)
    qed
  qed (simp_all add: nullish_def baseGet_loop_Undefined)
qed

lemma castPath_eq: "castPath p d = (if js_in p d then [p] else stringToPath p)"
proof (cases "js_in p d")
  case True
  then show ?thesis
    using js_in_not_nullish [of p d] by (simp add: castPath_def isKey_def)
next
  case False
  then show ?thesis
    by (cases "CHR ''.'' \<in> set p") (simp_all add: castPath_def isKey_def stringToPath_plain)
qed

lemma castPath_nonempty: "castPath p d \<noteq> []"
  by (simp add: castPath_eq stringToPath_nonempty)

lemma prop_at_castPath: "prop_at d p = lookup_path d (castPath p d)"
  by (simp add: prop_at_def castPath_eq)

lemma lookup_path_nullish: "nullish d \<Longrightarrow> l \<noteq> [] \<Longrightarrow> lookup_path d l = None"
  by (cases l) (auto simp: nullish_def)

lemma hasIn_prop_at: "hasIn d p \<longleftrightarrow> prop_at d p \<noteq> None"
proof (cases "nullish d")
  case True
  then show ?thesis
    using lookup_path_nullish [OF True castPath_nonempty [of p d]]
    by (simp add: hasIn_def prop_at_castPath)
next
  case False
  then show ?thesis
    using castPath_nonempty [of p d]
    by (simp add: hasIn_def prop_at_castPath hasPath_lookup Let_def)
qed

lemma baseGet_prop_at:
  "baseGet d p = (case prop_at d p of Some v \<Rightarrow> v | None \<Rightarrow> Undefined)"
  using castPath_nonempty [of p d]
  by (simp add: baseGet_def prop_at_castPath baseGet_lookup Let_def)

lemma picked_flat_snoc:
  "picked_flat d (ps @ [p]) k =
     (if k = p \<and> js_in p d then Some (js_prop d p) else picked_flat d ps k)"
  by (auto simp: picked_flat_def)

lemma picked_nested_snoc:
  "picked_nested d (ps @ [p]) a b =
     (if a @ ''.'' @ b = p then (if js_in p d then None else lookup_path d [a, b])
      else picked_nested d ps a b)"
  by (auto simp: picked_nested_def)

lemma lookup_path_key: "js_in k d \<Longrightarrow> lookup_path d [k] = Some (js_prop d k)"
  by (cases d) (auto simp: map_of_eq_None_iff split: option.splits)

lemma unsafe_key_no_dot: "unsafe_key k \<Longrightarrow> CHR ''.'' \<notin> set k"
  by (auto simp: unsafe_key_def)

lemma baseSet_flat:
  "CHR ''.'' \<in> set p \<Longrightarrow> baseSet (Obj kvs) [p] v = Obj (AList.update p v kvs)"
  using unsafe_key_no_dot [of p] by (auto simp: isObject_def)

lemma baseSet_nested_new:
  assumes "\<not> unsafe_key a" "\<not> unsafe_key b" "map_of kvs a = None"
  shows "baseSet (Obj kvs) [a, b] v = Obj (AList.update a (Obj [(b, v)]) kvs)"
  using assms by (simp add: isObject_def Let_def)

lemma baseSet_nested_old:
  assumes "\<not> unsafe_key a" "\<not> unsafe_key b" "map_of kvs a = Some (Obj kvs')"
  shows "baseSet (Obj kvs) [a, b] v = Obj (AList.update a (Obj (AList.update b v kvs')) kvs)"
  using assms by (simp add: isObject_def Let_def)

lemma picked_step:
  assumes inv: "picked d ps kvs" and p: "two_segments p"
  shows "\<exists>kvs'. (if hasIn d p then baseSet (Obj kvs) (castPath p d) (baseGet d p)
                 else Obj kvs) = Obj kvs' \<and> picked d (ps @ [p]) kvs'"
proof -
  obtain a b where ab: "stringToPath p = [a, b]" and pab: "p = a @ ''.'' @ b"
    and da: "CHR ''.'' \<notin> set a" and db: "CHR ''.'' \<notin> set b"
    and ua: "\<not> unsafe_key a" and ub: "\<not> unsafe_key b"
    using two_segmentsD [OF p] by blast
  have dp: "CHR ''.'' \<in> set p" by (simp add: pab)
  have dist: "distinct (map fst kvs)"
    and flat: "\<And>k. CHR ''.'' \<in> set k \<Longrightarrow> map_of kvs k = picked_flat d ps k"
    and nest: "\<And>a. CHR ''.'' \<notin> set a \<Longrightarrow>
         (case map_of kvs a of
            None \<Rightarrow> (\<forall>b. CHR ''.'' \<notin> set b \<longrightarrow> picked_nested d ps a b = None)
          | Some v \<Rightarrow>
              (\<exists>kvs'. v = Obj kvs' \<and> kvs' \<noteq> [] \<and> distinct (map fst kvs') \<and>
                 (\<forall>b. map_of kvs' b =
                        (if CHR ''.'' \<notin> set b then picked_nested d ps a b else None))))"
    using inv by (simp_all add: picked_def)
  have same: "a' @ ''.'' @ b' = p \<longleftrightarrow> a' = a \<and> b' = b"
    if "CHR ''.'' \<notin> set a'" "CHR ''.'' \<notin> set b'" for a' b'
    using dotted_inject [OF that da db] pab by auto
  have cast: "castPath p d = (if js_in p d then [p] else [a, b])"
    by (simp add: castPath_eq ab)
  have at: "prop_at d p = (if js_in p d then Some (js_prop d p) else lookup_path d [a, b])"
    by (simp add: prop_at_castPath cast lookup_path_key)
  show ?thesis
  proof (cases "js_in p d")
    case True
    have step: "(if hasIn d p then baseSet (Obj kvs) (castPath p d) (baseGet d p)
                 else Obj kvs) = Obj (AList.update p (js_prop d p) kvs)"
      using True dp by (simp add: hasIn_prop_at baseGet_prop_at at cast baseSet_flat del: baseSet.simps)
    have "picked d (ps @ [p]) (AList.update p (js_prop d p) kvs)"
      unfolding picked_def
    proof (intro conjI allI impI)
      show "distinct (map fst (AList.update p (js_prop d p) kvs))"
        using dist by (rule AList.distinct_update)
    next
      fix k assume "CHR ''.'' \<in> set k"
      then show "map_of (AList.update p (js_prop d p) kvs) k = picked_flat d (ps @ [p]) k"
        using flat [of k] True by (simp add: AList.update_conv' picked_flat_snoc)
    next
      fix a' assume a': "CHR ''.'' \<notin> set a'"
      then have "a' \<noteq> p" using dp by auto
      then have m: "map_of (AList.update p (js_prop d p) kvs) a' = map_of kvs a'"
        by (simp add: AList.update_conv')
      have n: "picked_nested d (ps @ [p]) a' b' = picked_nested d ps a' b'" for b'
        using True by (auto simp: picked_nested_def)
      show "case map_of (AList.update p (js_prop d p) kvs) a' of
            None \<Rightarrow> \<forall>b. CHR ''.'' \<notin> set b \<longrightarrow> picked_nested d (ps @ [p]) a' b = None
          | Some v \<Rightarrow>
              \<exists>kvs'. v = Obj kvs' \<and> kvs' \<noteq> [] \<and> distinct (map fst kvs') \<and>
                 (\<forall>b. map_of kvs' b =
                        (if CHR ''.'' \<notin> set b then picked_nested d (ps @ [p]) a' b else None))"
        using nest [OF a'] by (simp only: m n)
    qed
    then show ?thesis using step by blast
  next
    case False
    have fl: "picked_flat d (ps @ [p]) k = picked_flat d ps k" for k
      using False by (simp add: picked_flat_snoc)
    show ?thesis
    proof (cases "lookup_path d [a, b]")
      case None
      have step: "(if hasIn d p then baseSet (Obj kvs) (castPath p d) (baseGet d p)
                 else Obj kvs) = Obj kvs"
        using False None by (simp add: hasIn_prop_at at)
      have n: "picked_nested d (ps @ [p]) a' b' = picked_nested d ps a' b'"
        if "CHR ''.'' \<notin> set a'" "CHR ''.'' \<notin> set b'" for a' b'
        using same [OF that] None False
        by (auto simp: picked_nested_snoc picked_nested_def)
      have "picked d (ps @ [p]) kvs"
        unfolding picked_def
      proof (intro conjI allI impI)
        show "distinct (map fst kvs)" by (rule dist)
      next
        fix k assume "CHR ''.'' \<in> set k"
        then show "map_of kvs k = picked_flat d (ps @ [p]) k"
          using flat [of k] by (simp only: fl)
      next
        fix a' assume a': "CHR ''.'' \<notin> set a'"
        show "case map_of kvs a' of
            None \<Rightarrow> \<forall>b. CHR ''.'' \<notin> set b \<longrightarrow> picked_nested d (ps @ [p]) a' b = None
          | Some v \<Rightarrow>
              \<exists>kvs'. v = Obj kvs' \<and> kvs' \<noteq> [] \<and> distinct (map fst kvs') \<and>
                 (\<forall>b. map_of kvs' b =
                        (if CHR ''.'' \<notin> set b then picked_nested d (ps @ [p]) a' b else None))"
          using nest [OF a'] n [OF a'] by (auto split: option.splits)
      qed
      then show ?thesis using step by blast
    next
      case (Some v)
      define kvs0 where "kvs0 = (case map_of kvs a of Some (Obj k') \<Rightarrow> k' | _ \<Rightarrow> [])"
      have old: "\<forall>b'. map_of kvs0 b' =
                   (if CHR ''.'' \<notin> set b' then picked_nested d ps a b' else None)"
        and dist0: "distinct (map fst kvs0)"
        using nest [OF da] by (auto simp: kvs0_def split: option.splits)
      have inner: "AList.update b v kvs0 \<noteq> []" "distinct (map fst (AList.update b v kvs0))"
      proof -
        show "AList.update b v kvs0 \<noteq> []"
          by (cases kvs0) auto
        show "distinct (map fst (AList.update b v kvs0))"
          using dist0 by (rule AList.distinct_update)
      qed
      have set: "baseSet (Obj kvs) [a, b] v = Obj (AList.update a (Obj (AList.update b v kvs0)) kvs)"
      proof (cases "map_of kvs a")
        case None
        then show ?thesis
          using baseSet_nested_new [OF ua ub None] by (simp add: kvs0_def)
      next
        case (Some w)
        then obtain k' where "w = Obj k'" using nest [OF da] by auto
        then show ?thesis
          using baseSet_nested_old [OF ua ub, of kvs k'] Some by (simp add: kvs0_def)
      qed
      have step: "(if hasIn d p then baseSet (Obj kvs) (castPath p d) (baseGet d p)
                 else Obj kvs) = Obj (AList.update a (Obj (AList.update b v kvs0)) kvs)"
        using False Some by (simp add: hasIn_prop_at baseGet_prop_at at cast set del: baseSet.simps)
      have "picked d (ps @ [p]) (AList.update a (Obj (AList.update b v kvs0)) kvs)"
        unfolding picked_def
      proof (intro conjI allI impI)
        show "distinct (map fst (AList.update a (Obj (AList.update b v kvs0)) kvs))"
          using dist by (rule AList.distinct_update)
      next
        fix k assume k: "CHR ''.'' \<in> set k"
        then have "k \<noteq> a" using da by auto
        then show "map_of (AList.update a (Obj (AList.update b v kvs0)) kvs) k =
                   picked_flat d (ps @ [p]) k"
          using flat [OF k] by (simp add: AList.update_conv' fl)
      next
        fix a' assume a': "CHR ''.'' \<notin> set a'"
        show "case map_of (AList.update a (Obj (AList.update b v kvs0)) kvs) a' of
            None \<Rightarrow> \<forall>b. CHR ''.'' \<notin> set b \<longrightarrow> picked_nested d (ps @ [p]) a' b = None
          | Some v \<Rightarrow>
              \<exists>kvs'. v = Obj kvs' \<and> kvs' \<noteq> [] \<and> distinct (map fst kvs') \<and>
                 (\<forall>b. map_of kvs' b =
                        (if CHR ''.'' \<notin> set b then picked_nested d (ps @ [p]) a' b else None))"
        proof (cases "a' = a")
          case True
          have "map_of (AList.update b v kvs0) b' =
                  (if CHR ''.'' \<notin> set b' then picked_nested d (ps @ [p]) a b' else None)" for b'
          proof (cases "b' = b")
            case True
            then show ?thesis
              using db False Some by (simp add: AList.update_conv' picked_nested_snoc pab)
          next
            case neq: False
            have "picked_nested d (ps @ [p]) a b' = picked_nested d ps a b'"
              if "CHR ''.'' \<notin> set b'"
              using same [OF da that] neq by (simp add: picked_nested_snoc)
            then show ?thesis
              using old neq by (simp add: AList.update_conv')
          qed
          then show ?thesis using True inner by (simp add: AList.update_conv')
        next
          case neq: False
          have n: "picked_nested d (ps @ [p]) a' b' = picked_nested d ps a' b'"
            if "CHR ''.'' \<notin> set b'" for b'
            using same [OF a' that] neq by (simp add: picked_nested_snoc)
          have m: "map_of (AList.update a (Obj (AList.update b v kvs0)) kvs) a' = map_of kvs a'"
            using neq by (simp add: AList.update_conv')
          show ?thesis
            using nest [OF a'] n by (auto simp: m split: option.splits)
        qed
      qed
      then show ?thesis using step by blast
    qed
  qed
qed

lemma basePick_picked:
  assumes "\<forall>p\<in>set ps. two_segments p"
  shows "\<exists>kvs. basePick d ps = Obj kvs \<and> picked d ps kvs"
  using assms
proof (induction ps rule: rev_induct)
  case Nil
  show ?case
    by (simp add: basePick_Nil picked_def picked_flat_def picked_nested_def)
next
  case (snoc p ps)
  then obtain kvs where kvs: "basePick d ps = Obj kvs" and inv: "picked d ps kvs"
    by auto
  have p: "two_segments p" using snoc.prems by simp
  have eq: "basePick d (ps @ [p]) =
      (if hasIn d p then baseSet (Obj kvs) (castPath p d) (baseGet d p) else Obj kvs)"
    by (simp only: basePick_snoc kvs)
  show ?case
    unfolding eq by (rule picked_step [OF inv p])
qed

lemma picked_prop_at:
  assumes inv: "picked d ps kvs" and p: "two_segments p" and mem: "p \<in> set ps"
  shows "prop_at (Obj kvs) p = prop_at d p"
proof -
  obtain a b where ab: "stringToPath p = [a, b]" and pab: "p = a @ ''.'' @ b"
    and da: "CHR ''.'' \<notin> set a" and db: "CHR ''.'' \<notin> set b"
    by (rule two_segmentsD [OF p])
  have dp: "CHR ''.'' \<in> set p" by (simp add: pab)
  have flat: "map_of kvs p = picked_flat d ps p"
    using inv dp by (simp add: picked_def)
  have nest: "case map_of kvs a of
            None \<Rightarrow> (\<forall>b. CHR ''.'' \<notin> set b \<longrightarrow> picked_nested d ps a b = None)
          | Some v \<Rightarrow>
              (\<exists>kvs'. v = Obj kvs' \<and> kvs' \<noteq> [] \<and> distinct (map fst kvs') \<and>
                 (\<forall>b. map_of kvs' b =
                        (if CHR ''.'' \<notin> set b then picked_nested d ps a b else None)))"
    using inv da by (simp add: picked_def)
  show ?thesis
  proof (cases "js_in p d")
    case True
    then have "map_of kvs p = Some (js_prop d p)"
      using flat mem by (simp add: picked_flat_def)
    moreover from this have "js_in p (Obj kvs)"
      by (simp only: js_in_map_of) simp
    ultimately have "prop_at (Obj kvs) p = Some (js_prop d p)"
      by (simp add: prop_at_def del: js_in.simps)
    then show ?thesis
      using True by (simp add: prop_at_def lookup_path_key)
  next
    case False
    then have "map_of kvs p = None"
      using flat by (simp add: picked_flat_def)
    then have "\<not> js_in p (Obj kvs)"
      by (simp only: js_in_map_of) simp
    then have l: "prop_at (Obj kvs) p = lookup_path (Obj kvs) [a, b]"
      by (simp add: prop_at_def ab del: js_in.simps)
    have r: "prop_at d p = lookup_path d [a, b]"
      using False by (simp add: prop_at_def ab)
    have n: "picked_nested d ps a b = lookup_path d [a, b]"
      using False mem by (simp add: picked_nested_def pab)
    show ?thesis
      using nest db n by (auto simp: l r split: option.splits)
  qed
qed

lemma picked_holds_only:
  assumes inv: "picked d ps kvs"
  shows "holds_only_picked ps d (Obj kvs)"
proof -
  have dist: "distinct (map fst kvs)"
    and flat: "\<And>k. CHR ''.'' \<in> set k \<Longrightarrow> map_of kvs k = picked_flat d ps k"
    and nest: "\<And>a. CHR ''.'' \<notin> set a \<Longrightarrow>
         (case map_of kvs a of
            None \<Rightarrow> (\<forall>b. CHR ''.'' \<notin> set b \<longrightarrow> picked_nested d ps a b = None)
          | Some v \<Rightarrow>
              (\<exists>kvs'. v = Obj kvs' \<and> kvs' \<noteq> [] \<and> distinct (map fst kvs') \<and>
                 (\<forall>b. map_of kvs' b =
                        (if CHR ''.'' \<notin> set b then picked_nested d ps a b else None))))"
    using inv by (simp_all add: picked_def)
  have "(k \<in> set ps \<and> prop_at d k = Some w) \<or>
          (case w of
             Obj kvs' \<Rightarrow>
               kvs' \<noteq> [] \<and> distinct (map fst kvs') \<and>
               list_all (\<lambda>(b, u). k @ ''.'' @ b \<in> set ps \<and>
                                  k @ ''.'' @ b \<notin> set (map fst kvs) \<and>
                                  prop_at d (k @ ''.'' @ b) = Some u) kvs'
           | _ \<Rightarrow> False)"
    if kw: "(k, w) \<in> set kvs" for k w
  proof -
    have m: "map_of kvs k = Some w"
      using dist kw by (rule map_of_is_SomeI)
    show ?thesis
    proof (cases "CHR ''.'' \<in> set k")
      case True
      have "picked_flat d ps k = Some w"
        using flat [OF True] m by simp
      then have "k \<in> set ps" and "js_in k d" and "w = js_prop d k"
        by (simp_all add: picked_flat_def split: if_splits)
      then have "k \<in> set ps \<and> prop_at d k = Some w"
        by (simp add: prop_at_def lookup_path_key)
      then show ?thesis by (rule disjI1)
    next
      case False
      obtain kvs' where w: "w = Obj kvs'" and ne: "kvs' \<noteq> []"
        and dist': "distinct (map fst kvs')"
        and inner: "\<forall>b. map_of kvs' b =
                      (if CHR ''.'' \<notin> set b then picked_nested d ps k b else None)"
        using nest [OF False] by (auto simp: m)
      have "k @ ''.'' @ b \<in> set ps \<and> k @ ''.'' @ b \<notin> set (map fst kvs) \<and>
            prop_at d (k @ ''.'' @ b) = Some u"
        if bu: "(b, u) \<in> set kvs'" for b u
      proof -
        have mb: "map_of kvs' b = Some u"
          using dist' bu by (rule map_of_is_SomeI)
        then have db: "CHR ''.'' \<notin> set b" and pn: "picked_nested d ps k b = Some u"
          using inner by (auto split: if_splits)
        from pn have mem: "k @ ''.'' @ b \<in> set ps"
          and nin: "\<not> js_in (k @ ''.'' @ b) d"
          and look: "lookup_path d [k, b] = Some u"
          by (simp_all add: picked_nested_def split: if_splits)
        have "map_of kvs (k @ ''.'' @ b) = None"
          using flat [of "k @ ''.'' @ b"] nin by (simp add: picked_flat_def)
        then have absent: "k @ ''.'' @ b \<notin> set (map fst kvs)"
          by (simp add: map_of_eq_None_iff)
        have "stringToPath (k @ ''.'' @ b) = [k, b]"
          using False db by (simp add: stringToPath_dot stringToPath_plain)
        then have "prop_at d (k @ ''.'' @ b) = Some u"
          using nin look by (simp add: prop_at_def)
        then show ?thesis using mem absent by simp
      qed
      then have "list_all (\<lambda>(b, u). k @ ''.'' @ b \<in> set ps \<and>
                                  k @ ''.'' @ b \<notin> set (map fst kvs) \<and>
                                  prop_at d (k @ ''.'' @ b) = Some u) kvs'"
        unfolding list_all_iff by blast
      then show ?thesis using ne dist' by (simp add: w)
    qed
  qed
  then have "list_all
            (\<lambda>(k, w).
               (k \<in> set ps \<and> prop_at d k = Some w) \<or>
               (case w of
                  Obj kvs' \<Rightarrow>
                    kvs' \<noteq> [] \<and> distinct (map fst kvs') \<and>
                    list_all
                      (\<lambda>(b, u). k @ ''.'' @ b \<in> set ps \<and>
                                 k @ ''.'' @ b \<notin> set (map fst kvs) \<and>
                                 prop_at d (k @ ''.'' @ b) = Some u) kvs'
                | _ \<Rightarrow> False)) kvs"
    unfolding list_all_iff by blast
  then show ?thesis
    using dist by (simp add: holds_only_picked_def)
qed

lemma pick_two_segments:
  assumes "\<forall>p\<in>set ps. two_segments p"
  shows "(\<forall>p\<in>set ps. prop_at (pick d ps) p = prop_at d p) \<and>
         holds_only_picked ps d (pick d ps)"
proof (cases "nullish d")
  case True
  have "prop_at (Obj []) p = None" for p
    using castPath_nonempty [of p "Obj []"]
    by (cases "castPath p (Obj [])") (simp_all add: prop_at_castPath)
  moreover have "prop_at d p = None" for p
    using lookup_path_nullish [OF True castPath_nonempty [of p d]]
    by (simp add: prop_at_castPath)
  ultimately show ?thesis
    using True by (simp add: pick_def holds_only_picked_def)
next
  case False
  obtain kvs where kvs: "basePick d ps = Obj kvs" and inv: "picked d ps kvs"
    using basePick_picked [OF assms] by blast
  have "pick d ps = Obj kvs" using False kvs by (simp add: pick_def)
  then show ?thesis
    using picked_prop_at [OF inv] picked_holds_only [OF inv] assms by auto
qed

lemma allowlists_two_segments:
  "\<forall>p\<in>set transaction_created_paths. two_segments p"
  "\<forall>p\<in>set update_published_paths. two_segments p"
  "\<forall>p\<in>set expense_created_paths. two_segments p"
  by code_simp+

lemma allowlist_two_segments: "\<forall>p\<in>set (allowlist t). two_segments p"
  using allowlists_two_segments by (simp add: allowlist_def)

lemma sanitizeActivity_known:
  assumes "js_prop activity ''type'' = Str t" and "t \<in> set known_types"
  shows "\<exists>kvs. sanitizeActivity activity =
           Inr (Obj (AList.update ''data''
                  (pick (js_prop activity ''data'') (allowlist t)) kvs))"
proof -
  have distinct_types: "COLLECTIVE_TRANSACTION_CREATED \<noteq> COLLECTIVE_UPDATE_PUBLISHED"
    "COLLECTIVE_TRANSACTION_CREATED \<noteq> COLLECTIVE_EXPENSE_CREATED"
    "COLLECTIVE_UPDATE_PUBLISHED \<noteq> COLLECTIVE_EXPENSE_CREATED"
    by (simp_all add: COLLECTIVE_TRANSACTION_CREATED_def COLLECTIVE_UPDATE_PUBLISHED_def
          COLLECTIVE_EXPENSE_CREATED_def)
  obtain kvs where out: "sanitizeActivity activity =
       Inr (Obj (AList.update ''data''
         (if js_prop activity ''type'' = Str COLLECTIVE_TRANSACTION_CREATED
          then pick (js_prop activity ''data'') transaction_created_paths
          else if js_prop activity ''type'' = Str COLLECTIVE_UPDATE_PUBLISHED
          then pick (js_prop activity ''data'') update_published_paths
          else if js_prop activity ''type'' = Str COLLECTIVE_EXPENSE_CREATED
          then pick (js_prop activity ''data'') expense_created_paths
          else Obj []) kvs))"
    using sanitizeActivity_result [of activity] by blast
  consider "t = COLLECTIVE_TRANSACTION_CREATED" | "t = COLLECTIVE_UPDATE_PUBLISHED"
    | "t = COLLECTIVE_EXPENSE_CREATED"
    using assms(2) by (auto simp: known_types_def)
  then have "(if js_prop activity ''type'' = Str COLLECTIVE_TRANSACTION_CREATED
          then pick (js_prop activity ''data'') transaction_created_paths
          else if js_prop activity ''type'' = Str COLLECTIVE_UPDATE_PUBLISHED
          then pick (js_prop activity ''data'') update_published_paths
          else if js_prop activity ''type'' = Str COLLECTIVE_EXPENSE_CREATED
          then pick (js_prop activity ''data'') expense_created_paths
          else Obj []) = pick (js_prop activity ''data'') (allowlist t)"
    using distinct_types by cases (simp_all add: assms(1) allowlist_def)
  then show ?thesis using out by auto
qed

text \<open>
  C4. For an activity of one of the three known types, the \<open>data\<close> of the sanitized
  activity holds exactly the keys of that type's allowlist that the input's \<open>data\<close>
  has. Every key of the allowlist names the same property in both (the same value, or
  absent from both); and the sanitized \<open>data\<close> holds nothing else: each property in it
  stands for a key of the allowlist that the input's \<open>data\<close> has, with the input's
  value. A key is a property path: the sanitized \<open>data\<close> holds \<open>fromCollective.type\<close> as
  the property \<open>type\<close> of its object \<open>fromCollective\<close>, unless the input has a property
  of the dotted name itself.
\<close>

theorem sanitized_data_is_allowlisted:
  assumes "js_prop activity ''type'' = Str t" and "t \<in> set known_types"
  shows "\<exists>out. sanitizeActivity activity = Inr out \<and>
           (\<forall>p\<in>set (allowlist t).
               prop_at (js_prop out ''data'') p = prop_at (js_prop activity ''data'') p) \<and>
           holds_only_picked (allowlist t) (js_prop activity ''data'') (js_prop out ''data'')"
proof -
  obtain kvs where out: "sanitizeActivity activity =
           Inr (Obj (AList.update ''data''
                  (pick (js_prop activity ''data'') (allowlist t)) kvs))"
    using sanitizeActivity_known [OF assms] by blast
  have data: "js_prop (Obj (AList.update ''data''
                  (pick (js_prop activity ''data'') (allowlist t)) kvs)) ''data'' =
              pick (js_prop activity ''data'') (allowlist t)"
    by (simp add: AList.update_conv')
  note picked = pick_two_segments [OF allowlist_two_segments, of t "js_prop activity ''data''"]
  have same: "\<forall>p\<in>set (allowlist t).
      prop_at (js_prop (Obj (AList.update ''data''
                  (pick (js_prop activity ''data'') (allowlist t)) kvs)) ''data'') p =
      prop_at (js_prop activity ''data'') p"
    unfolding data by (rule conjunct1 [OF picked])
  have only: "holds_only_picked (allowlist t) (js_prop activity ''data'')
      (js_prop (Obj (AList.update ''data''
                  (pick (js_prop activity ''data'') (allowlist t)) kvs)) ''data'')"
    unfolding data by (rule conjunct2 [OF picked])
  show ?thesis
    by (rule exI [of _ "Obj (AList.update ''data''
                  (pick (js_prop activity ''data'') (allowlist t)) kvs)"])
       (intro conjI out same only)
qed

text \<open>
  The example activity: the name of \<open>fromCollective\<close> is kept, the image is absent from
  both, and the email, the payment token and the user are not in the output, whose
  \<open>data\<close> is exactly the two objects with the four allowlisted properties. An object
  with an empty \<open>user\<close> in it would not do.
\<close>

theorem sanitized_data_is_allowlisted_witness:
  "js_prop example_activity ''type'' = Str COLLECTIVE_TRANSACTION_CREATED \<and>
   COLLECTIVE_TRANSACTION_CREATED \<in> set known_types \<and>
   prop_at (js_prop example_activity ''data'') ''fromCollective.name'' = Some (Str ''Ada'') \<and>
   prop_at (js_prop example_activity ''data'') ''fromCollective.image'' = None \<and>
   ''fromCollective.name'' \<in> set (allowlist COLLECTIVE_TRANSACTION_CREATED) \<and>
   ''fromCollective.image'' \<in> set (allowlist COLLECTIVE_TRANSACTION_CREATED) \<and>
   js_prop (Obj [(''id'', Num 3),
               (''type'', Str ''collective.transaction.created''),
               (''CollectiveId'', Num 7),
               (''data'',
                Obj [(''fromCollective'',
                      Obj [(''type'', Str ''USER''), (''name'', Str ''Ada'')]),
                     (''transaction'',
                      Obj [(''amount'', Num 500), (''currency'', Str ''USD'')])])]) ''data'' =
     Obj [(''fromCollective'', Obj [(''type'', Str ''USER''), (''name'', Str ''Ada'')]),
          (''transaction'', Obj [(''amount'', Num 500), (''currency'', Str ''USD'')])] \<and>
   \<not> holds_only_picked (allowlist COLLECTIVE_TRANSACTION_CREATED)
       (js_prop example_activity ''data'')
       (Obj [(''fromCollective'', Obj [(''type'', Str ''USER''), (''name'', Str ''Ada'')]),
             (''transaction'', Obj [(''amount'', Num 500), (''currency'', Str ''USD'')]),
             (''user'', Obj [])]) \<and>
   (\<exists>out. sanitizeActivity example_activity = Inr out \<and>
      prop_at (js_prop out ''data'') ''fromCollective.name'' = Some (Str ''Ada'') \<and>
      prop_at (js_prop out ''data'') ''fromCollective.image'' = None \<and>
      holds_only_picked (allowlist COLLECTIVE_TRANSACTION_CREATED)
        (js_prop example_activity ''data'') (js_prop out ''data''))"
proof -
  have ty: "js_prop example_activity ''type'' = Str COLLECTIVE_TRANSACTION_CREATED"
    and kn: "COLLECTIVE_TRANSACTION_CREATED \<in> set known_types"
    and n: "prop_at (js_prop example_activity ''data'') ''fromCollective.name'' = Some (Str ''Ada'')"
    and i: "prop_at (js_prop example_activity ''data'') ''fromCollective.image'' = None"
    and mn: "''fromCollective.name'' \<in> set (allowlist COLLECTIVE_TRANSACTION_CREATED)"
    and mi: "''fromCollective.image'' \<in> set (allowlist COLLECTIVE_TRANSACTION_CREATED)"
    and dt: "js_prop (Obj [(''id'', Num 3),
               (''type'', Str ''collective.transaction.created''),
               (''CollectiveId'', Num 7),
               (''data'',
                Obj [(''fromCollective'',
                      Obj [(''type'', Str ''USER''), (''name'', Str ''Ada'')]),
                     (''transaction'',
                      Obj [(''amount'', Num 500), (''currency'', Str ''USD'')])])]) ''data'' =
     Obj [(''fromCollective'', Obj [(''type'', Str ''USER''), (''name'', Str ''Ada'')]),
          (''transaction'', Obj [(''amount'', Num 500), (''currency'', Str ''USD'')])]"
    and no: "\<not> holds_only_picked (allowlist COLLECTIVE_TRANSACTION_CREATED)
       (js_prop example_activity ''data'')
       (Obj [(''fromCollective'', Obj [(''type'', Str ''USER''), (''name'', Str ''Ada'')]),
             (''transaction'', Obj [(''amount'', Num 500), (''currency'', Str ''USD'')]),
             (''user'', Obj [])])"
    by code_simp+
  obtain out where out: "sanitizeActivity example_activity = Inr out"
    and same: "\<forall>p\<in>set (allowlist COLLECTIVE_TRANSACTION_CREATED).
               prop_at (js_prop out ''data'') p = prop_at (js_prop example_activity ''data'') p"
    and only: "holds_only_picked (allowlist COLLECTIVE_TRANSACTION_CREATED)
                 (js_prop example_activity ''data'') (js_prop out ''data'')"
    using sanitized_data_is_allowlisted [OF ty kn] by blast
  have kept: "prop_at (js_prop out ''data'') ''fromCollective.name'' = Some (Str ''Ada'')"
    using same mn n by (simp only:)
  have gone: "prop_at (js_prop out ''data'') ''fromCollective.image'' = None"
    using same mi i by (simp only:)
  have ex: "\<exists>out. sanitizeActivity example_activity = Inr out \<and>
      prop_at (js_prop out ''data'') ''fromCollective.name'' = Some (Str ''Ada'') \<and>
      prop_at (js_prop out ''data'') ''fromCollective.image'' = None \<and>
      holds_only_picked (allowlist COLLECTIVE_TRANSACTION_CREATED)
        (js_prop example_activity ''data'') (js_prop out ''data'')"
    by (rule exI [of _ out]) (intro conjI out kept gone only)
  show ?thesis
    by (intro conjI ty kn n i mn mi dt no ex)
qed

section \<open>Properties of legal document creation\<close>

text \<open>
  C8. Creating a legal document whose \<open>HostCollectiveId\<close> and \<open>CollectiveId\<close> reference
  existing collective rows succeeds, and the new record is among those a query
  returns; creating one with either reference missing fails with a validation error.
\<close>

theorem legal_document_creation:
  "(v_HostCollectiveId vals = Some h \<and> v_CollectiveId vals = Some c \<and>
    collective_exists db h \<and> collective_exists db c \<longrightarrow>
      (\<exists>db' doc. LegalDocument_create db vals = Inr (db', doc) \<and>
          doc \<in> set (LegalDocument_findAll db') \<and>
          ld_HostCollectiveId doc = h \<and> ld_CollectiveId doc = c \<and>
          ld_year doc = v_year vals)) \<and>
   (v_HostCollectiveId vals = None \<or> v_CollectiveId vals = None \<longrightarrow>
      (\<exists>msg. LegalDocument_create db vals = Inl (ValidationError msg)))"
  by (auto simp: LegalDocument_create_def LegalDocument_findAll_def Let_def
      split: option.splits)

text \<open>
  The test's case: the host \<open>myhost\<close> and the user's collective exist, and the document
  for 2019 is created.
\<close>

theorem legal_document_creation_witness:
  "v_HostCollectiveId example_legal_values = Some 8 \<and>
   v_CollectiveId example_legal_values = Some 7 \<and>
   collective_exists example_database 8 \<and>
   collective_exists example_database 7 \<and>
   (\<exists>db' doc. LegalDocument_create example_database example_legal_values = Inr (db', doc) \<and>
       doc \<in> set (LegalDocument_findAll db') \<and>
       ld_HostCollectiveId doc = 8 \<and> ld_CollectiveId doc = 7 \<and>
       ld_year doc = v_year example_legal_values)"
proof -
  have a: "v_HostCollectiveId example_legal_values = Some 8"
    and b: "v_CollectiveId example_legal_values = Some 7"
    by (simp_all add: example_legal_values_def)
  have c: "collective_exists example_database 8"
    and d: "collective_exists example_database 7"
    by (simp_all add: collective_exists_def example_database_def example_account_def)
  from legal_document_creation [of example_legal_values 8 7 example_database] a b c d
  have "\<exists>db' doc. LegalDocument_create example_database example_legal_values = Inr (db', doc) \<and>
       doc \<in> set (LegalDocument_findAll db') \<and>
       ld_HostCollectiveId doc = 8 \<and> ld_CollectiveId doc = 7 \<and>
       ld_year doc = v_year example_legal_values"
    by blast
  with a b c d show ?thesis by blast
qed

end
